theory Spec2Isabelle
  imports Complex_Main "HOL-Library.Multiset" "HOL-Library.Char_ord" "HOL-Library.List_Lexorder"
begin

section \<open>Packet records and data frames\<close>

text \<open>
  Both programs (\<^verbatim>\<open>network_analyzer_ui_v2.py\<close>, the desktop dashboard, and
  \<^verbatim>\<open>network_api_backend.py\<close>, the HTTP API) work on a pandas DataFrame read from a CSV
  file with the columns Timestamp, Source IP, Dest IP, Protocol, Length and Port.
  A row is a record. A cell that is empty in the file is NaN in pandas: the address,
  protocol and port cells are options, \<open>None\<close> standing for NaN. Timestamps are instants
  (seconds), lengths are integers. Strings are ASCII.
\<close>

record packet =
  Timestamp :: int
  Source_IP :: "string option"
  Dest_IP :: "string option"
  Protocol :: "string option"
  Length :: int
  Port :: "int option"

text \<open>
  A DataFrame object: its column labels and its rows, in order. \<^verbatim>\<open>pd.DataFrame()\<close> has
  no column and no row; a frame read from the traffic file has the six columns. A column
  in which \<^verbatim>\<open>read_csv\<close> finds no value at all gets the dtype float64 instead of object, and
  keeps it in every frame derived from the table: \<open>all_nan\<close> lists these columns.
\<close>

record dataframe =
  columns :: "string list"
  all_nan :: "string list"
  rows :: "packet list"

definition traffic_columns :: "string list" where
  "traffic_columns = [''Timestamp'', ''Source IP'', ''Dest IP'', ''Protocol'', ''Length'', ''Port'']"

definition DataFrame :: dataframe where
  "DataFrame = \<lparr>columns = [], all_nan = [], rows = []\<rparr>"

definition df_empty :: "dataframe \<Rightarrow> bool" where
  "df_empty f = (rows f = [] \<or> columns f = [])"

text \<open>The exceptions the two programs can meet in the operations modelled here.\<close>

datatype error =
    KeyError string
  | ReError string
  | TypeError
  | AttributeError
  | FileError string

subsection \<open>Cells of a column\<close>

text \<open>
  The value of one cell, as the sorting and counting routines see it: a number or a
  string. Within one column all values have the same kind; the order between a number
  and a string is never consulted and is fixed here only to make the order total.
  Strings compare as in Python, lexicographically by character code.
\<close>

datatype scalar = Num int | Str string

fun scalar_le :: "scalar \<Rightarrow> scalar \<Rightarrow> bool" where
  "scalar_le (Num a) (Num b) = (a \<le> b)"
| "scalar_le (Str a) (Str b) = (a \<le> b)"
| "scalar_le (Num a) (Str b) = True"
| "scalar_le (Str a) (Num b) = False"

instantiation scalar :: linorder
begin

definition less_eq_scalar :: "scalar \<Rightarrow> scalar \<Rightarrow> bool" where
  "less_eq_scalar a b = scalar_le a b"

definition less_scalar :: "scalar \<Rightarrow> scalar \<Rightarrow> bool" where
  "less_scalar a b = (scalar_le a b \<and> \<not> scalar_le b a)"

instance
proof
  fix x y z :: scalar
  show "(x < y) = (x \<le> y \<and> \<not> y \<le> x)"
    by (simp add: less_scalar_def less_eq_scalar_def)
  show "x \<le> x"
    by (cases x) (simp_all add: less_eq_scalar_def)
  show "x \<le> y \<Longrightarrow> y \<le> z \<Longrightarrow> x \<le> z"
    by (cases x; cases y; cases z) (auto simp: less_eq_scalar_def)
  show "x \<le> y \<Longrightarrow> y \<le> x \<Longrightarrow> x = y"
    by (cases x; cases y) (auto simp: less_eq_scalar_def)
  show "x \<le> y \<or> y \<le> x"
    by (cases x; cases y) (auto simp: less_eq_scalar_def)
qed

end

text \<open>\<^verbatim>\<open>df[name]\<close> on one row: the cell under a column label, \<open>None\<close> for NaN.\<close>

definition cell :: "string \<Rightarrow> packet \<Rightarrow> scalar option" where
  "cell name r =
     (if name = ''Timestamp'' then Some (Num (Timestamp r))
      else if name = ''Source IP'' then map_option Str (Source_IP r)
      else if name = ''Dest IP'' then map_option Str (Dest_IP r)
      else if name = ''Protocol'' then map_option Str (Protocol r)
      else if name = ''Length'' then Some (Num (Length r))
      else map_option Num (Port r))"

text \<open>
  \<^verbatim>\<open>pd.read_csv(file, parse_dates=["Timestamp"])\<close> on the rows of a traffic file. A file
  without rows gives columns of dtype object.
\<close>

definition no_value :: "string \<Rightarrow> packet list \<Rightarrow> bool" where
  "no_value name rs = (rs \<noteq> [] \<and> list_all (\<lambda>r. cell name r = None) rs)"

definition read_csv :: "packet list \<Rightarrow> dataframe" where
  "read_csv rs =
     \<lparr>columns = traffic_columns,
      all_nan = filter (\<lambda>name. no_value name rs) traffic_columns,
      rows = rs\<rparr>"

text \<open>\<^verbatim>\<open>df[name]\<close>: the column as a list of cells, KeyError for a label the frame lacks.\<close>

definition getitem :: "dataframe \<Rightarrow> string \<Rightarrow> error + scalar option list" where
  "getitem f name =
     (if name \<in> set (columns f) then Inr (map (cell name) (rows f)) else Inl (KeyError name))"

section \<open>The library routines the programs call\<close>

subsection \<open>Strings\<close>

text \<open>Python's \<^verbatim>\<open>str.strip()\<close> removes leading and trailing whitespace.\<close>

definition isspace :: "char \<Rightarrow> bool" where
  "isspace c = (of_char c \<in> {9, 10, 11, 12, 13, 28, 29, 30, 31, 32 :: nat})"

definition strip :: "string \<Rightarrow> string" where
  "strip s = rev (dropWhile isspace (rev (dropWhile isspace s)))"

definition lower :: "char \<Rightarrow> char" where
  "lower c = (if 65 \<le> (of_char c :: nat) \<and> (of_char c :: nat) \<le> 90
              then char_of (of_char c + (32 :: nat)) else c)"

subsection \<open>Regular expressions\<close>

text \<open>
  \<^verbatim>\<open>Series.str.contains(pat, case=False, na=False)\<close> is called without \<^verbatim>\<open>regex=False\<close>, so
  pandas compiles \<open>pat\<close> as a regular expression with the flag IGNORECASE and keeps the
  strings in which \<^verbatim>\<open>search\<close> finds a match; NaN cells give \<open>na\<close>, that is False.

  The patterns made of ordinary characters and the wildcard \<^verbatim>\<open>.\<close> (what an address
  filter is made of) are interpreted here. For a pattern that uses one of the other
  special characters the result of Python's \<^verbatim>\<open>re\<close> module is a parameter of the model:
  \<open>re_compile lib pat\<close> is \<open>None\<close> when \<^verbatim>\<open>re.compile\<close> raises \<^verbatim>\<open>re.error\<close>, and the search
  function of the compiled pattern otherwise.
\<close>

datatype pat_elem = Lit char | Dot

definition specials :: "char set" where
  "specials = insert (CHR 0x5C) (set ''^$*+?{}[]|()'')"

definition plain_pattern :: "string \<Rightarrow> bool" where
  "plain_pattern pat = (set pat \<inter> specials = {})"

definition parse_plain :: "string \<Rightarrow> pat_elem list" where
  "parse_plain pat = map (\<lambda>c. if c = CHR ''.'' then Dot else Lit c) pat"

fun elem_matches :: "pat_elem \<Rightarrow> char \<Rightarrow> bool" where
  "elem_matches (Lit p) c = (lower p = lower c)"
| "elem_matches Dot c = (c \<noteq> CHR 0x0A)"

fun match_here :: "pat_elem list \<Rightarrow> string \<Rightarrow> bool" where
  "match_here [] s = True"
| "match_here (p # ps) [] = False"
| "match_here (p # ps) (c # cs) = (elem_matches p c \<and> match_here ps cs)"

fun search :: "pat_elem list \<Rightarrow> string \<Rightarrow> bool" where
  "search ps [] = match_here ps []"
| "search ps (c # cs) = (match_here ps (c # cs) \<or> search ps cs)"

subsection \<open>The sorting kernel\<close>

text \<open>
  \<^verbatim>\<open>sort_values\<close> is called without \<^verbatim>\<open>kind\<close>, so pandas sorts with NumPy's
  \<^verbatim>\<open>argsort(kind='quicksort')\<close>, which is documented as not stable: it returns the
  positions of the values in some non-decreasing order, and which of two equal values
  comes first depends on the kernel NumPy selects. The kernel is the second parameter
  of the model.
\<close>

record lib =
  re_compile :: "string \<Rightarrow> (string \<Rightarrow> bool) option"
  argsort :: "scalar list \<Rightarrow> nat list"

text \<open>What the documentation of \<^verbatim>\<open>argsort\<close> promises, for any kind.\<close>

definition argsort_sorts :: "(scalar list \<Rightarrow> nat list) \<Rightarrow> bool" where
  "argsort_sorts k =
     (\<forall>xs. mset (k xs) = mset [0..<length xs] \<and> sorted (map (\<lambda>i. xs ! i) (k xs)))"

text \<open>
  A reference library for running the model: a stable kernel, and no regular
  expression beyond the interpreted ones.
\<close>

definition stable_argsort :: "scalar list \<Rightarrow> nat list" where
  "stable_argsort xs = sort_key (\<lambda>i. xs ! i) [0..<length xs]"

definition reference_lib :: lib where
  "reference_lib = \<lparr>re_compile = (\<lambda>pat. None), argsort = stable_argsort\<rparr>"

text \<open>\<^verbatim>\<open>s.str.contains(pat, case=False, na=False)\<close>: the predicate on one cell.\<close>

definition str_contains :: "lib \<Rightarrow> string \<Rightarrow> error + (string option \<Rightarrow> bool)" where
  "str_contains l pat =
     (if plain_pattern pat
      then Inr (\<lambda>x. case x of None \<Rightarrow> False | Some s \<Rightarrow> search (parse_plain pat) s)
      else (case re_compile l pat of
              None \<Rightarrow> Inl (ReError pat)
            | Some f \<Rightarrow> Inr (\<lambda>x. case x of None \<Rightarrow> False | Some s \<Rightarrow> f s)))"


subsection \<open>Sorting a column\<close>

text \<open>
  pandas' \<^verbatim>\<open>nargsort(items, kind, ascending, na_position='last')\<close>: the positions of the
  NaN cells go last, in their order; the other values are handed to the kernel, reversed
  before and after for a descending sort.
\<close>

definition nargsort :: "(scalar list \<Rightarrow> nat list) \<Rightarrow> scalar option list \<Rightarrow> bool \<Rightarrow> nat list" where
  "nargsort kern items ascending =
     (let idx = [0..<length items];
          non_nan_idx = filter (\<lambda>i. items ! i \<noteq> None) idx;
          nan_idx = filter (\<lambda>i. items ! i = None) idx;
          non_nans = map (\<lambda>i. the (items ! i)) non_nan_idx;
          non_nans1 = (if ascending then non_nans else rev non_nans);
          non_nan_idx1 = (if ascending then non_nan_idx else rev non_nan_idx);
          indexer = map (\<lambda>j. non_nan_idx1 ! j) (kern non_nans1);
          indexer1 = (if ascending then indexer else rev indexer)
      in indexer1 @ nan_idx)"

text \<open>\<^verbatim>\<open>df.sort_values(by=col, ascending=ascending)\<close>: KeyError for an unknown label.\<close>

definition sort_values :: "lib \<Rightarrow> string \<Rightarrow> bool \<Rightarrow> dataframe \<Rightarrow> error + dataframe" where
  "sort_values l col ascending f =
     (case getitem f col of
        Inl e \<Rightarrow> Inl e
      | Inr k \<Rightarrow> Inr (f\<lparr>rows := map (\<lambda>i. rows f ! i) (nargsort (argsort l) k ascending)\<rparr>))"

subsection \<open>Counting values\<close>

text \<open>The distinct elements of a list in the order of their first occurrence.\<close>

definition unique :: "'a list \<Rightarrow> 'a list" where
  "unique xs = rev (remdups (rev xs))"

definition dropna :: "'a option list \<Rightarrow> 'a list" where
  "dropna s = List.map_filter (\<lambda>x. x) s"

text \<open>
  \<^verbatim>\<open>Series.value_counts()\<close>: NaN is dropped, the distinct values are counted in the order
  of their first occurrence, and the counts are sorted in descending order by
  \<^verbatim>\<open>sort_values(ascending=False)\<close>, again with the default kernel.
\<close>

definition value_counts :: "lib \<Rightarrow> 'a option list \<Rightarrow> ('a \<times> nat) list" where
  "value_counts l s =
     (let vals = dropna s;
          keys = unique vals;
          counts = map (\<lambda>k. count_list vals k) keys;
          indexer = nargsort (argsort l) (map (\<lambda>c. Some (Num (int c))) counts) False
      in map (\<lambda>i. (keys ! i, counts ! i)) indexer)"

definition head :: "nat \<Rightarrow> 'a list \<Rightarrow> 'a list" where
  "head n xs = take n xs"

text \<open>
  \<^verbatim>\<open>Series.mode()\<close>: the most frequent values other than NaN, sorted; \<^verbatim>\<open>mode()[0]\<close> is
  the smallest of them and raises KeyError when there is none.
\<close>

definition mode :: "'a::linorder option list \<Rightarrow> 'a list" where
  "mode s =
     (let vals = dropna s;
          keys = unique vals;
          m = fold max (map (\<lambda>k. count_list vals k) keys) 0
      in sort (filter (\<lambda>k. count_list vals k = m) keys))"

definition mode0 :: "'a::linorder option list \<Rightarrow> error + 'a" where
  "mode0 s = (case mode s of [] \<Rightarrow> Inl (KeyError ''0'') | x # xs \<Rightarrow> Inr x)"

section \<open>Objects and references\<close>

text \<open>
  DataFrames are mutable objects, and \<^verbatim>\<open>sort_values(inplace=True)\<close> writes into the
  object it is called on. A heap maps references to frames; \<open>fresh\<close> is the next
  unused reference.
\<close>

type_synonym addr = nat

record heap =
  objs :: "addr \<Rightarrow> dataframe"
  fresh :: addr

definition new_obj :: "dataframe \<Rightarrow> heap \<Rightarrow> addr \<times> heap" where
  "new_obj f h = (fresh h, h\<lparr>objs := (objs h)(fresh h := f), fresh := Suc (fresh h)\<rparr>)"

text \<open>\<^verbatim>\<open>df.copy()\<close>: a new object with the same content.\<close>

definition copy :: "addr \<Rightarrow> heap \<Rightarrow> addr \<times> heap" where
  "copy a h = new_obj (objs h a) h"

text \<open>\<^verbatim>\<open>df[mask]\<close> with a boolean mask: a new object holding the rows the mask keeps.\<close>

definition select :: "(packet \<Rightarrow> bool) \<Rightarrow> addr \<Rightarrow> heap \<Rightarrow> addr \<times> heap" where
  "select m a h = new_obj ((objs h a)\<lparr>rows := filter m (rows (objs h a))\<rparr>) h"

text \<open>\<^verbatim>\<open>df.head(n)\<close>: a new object holding the first rows.\<close>

definition df_head :: "nat \<Rightarrow> addr \<Rightarrow> heap \<Rightarrow> addr \<times> heap" where
  "df_head n a h = new_obj ((objs h a)\<lparr>rows := head n (rows (objs h a))\<rparr>) h"

text \<open>\<^verbatim>\<open>df.sort_values(by=col, ascending=ascending, inplace=True)\<close>.\<close>

definition sort_values_inplace :: "lib \<Rightarrow> string \<Rightarrow> bool \<Rightarrow> addr \<Rightarrow> heap \<Rightarrow> error + heap" where
  "sort_values_inplace l col ascending a h =
     (case sort_values l col ascending (objs h a) of
        Inl e \<Rightarrow> Inl e
      | Inr f \<Rightarrow> Inr (h\<lparr>objs := (objs h)(a := f)\<rparr>))"

text \<open>
  One substring filter of the pipeline, as both programs write it:
  \<^verbatim>\<open>if pat: filtered_df = filtered_df[filtered_df[name].str.contains(pat, case=False, na=False)]\<close>.
  The accessor \<^verbatim>\<open>.str\<close> raises AttributeError on a column that is not of dtype object,
  before the pattern is compiled.
\<close>

definition contains_filter ::
  "lib \<Rightarrow> string \<Rightarrow> (packet \<Rightarrow> string option) \<Rightarrow> string \<Rightarrow> addr \<Rightarrow> heap
     \<Rightarrow> (error + addr) \<times> heap" where
  "contains_filter l name column pat a h =
     (if pat \<noteq> []
      then (if name \<in> set (all_nan (objs h a)) then (Inl AttributeError, h)
            else (case str_contains l pat of
                    Inl e \<Rightarrow> (Inl e, h)
                  | Inr p \<Rightarrow> (let (a1, h1) = select (\<lambda>r. p (column r)) a h in (Inr a1, h1))))
      else (Inr a, h))"

text \<open>
  The protocol filter, the same in both programs:
  \<^verbatim>\<open>if selected_protocol and selected_protocol != "All": filtered_df = filtered_df[filtered_df['Protocol'] == selected_protocol]\<close>.
\<close>

definition protocol_filter :: "string \<Rightarrow> addr \<Rightarrow> heap \<Rightarrow> addr \<times> heap" where
  "protocol_filter selected_protocol a h =
     (if selected_protocol \<noteq> [] \<and> selected_protocol \<noteq> ''All''
      then select (\<lambda>r. Protocol r = Some selected_protocol) a h
      else (a, h))"


section \<open>Key metrics\<close>

text \<open>
  The eight key metrics, as values: the programs format them into strings
  (\<^verbatim>\<open>f"{total_packets:,}"\<close> and so on) only to display them. Lengths are int64 values;
  quotients are exact.
  \<open>time_range = None\<close> stands for the text \<^verbatim>\<open>"N/A"\<close>.
\<close>

record stats =
  total_packets :: nat
  total_data_bytes :: int
  total_data_mb :: rat
  avg_packet_size :: rat
  top_protocol :: string
  top_source_ip :: string
  top_dest_ip :: string
  unique_protocols :: nat
  time_range :: "(int \<times> int) option"

text \<open>\<^verbatim>\<open>s.mode()[0] if not s.empty else "N/A"\<close>.\<close>

definition top_value :: "string option list \<Rightarrow> error + string" where
  "top_value s = (if s \<noteq> [] then mode0 s else Inr ''N/A'')"

text \<open>\<^verbatim>\<open>len(s.unique()) if not s.empty else 0\<close>; \<^verbatim>\<open>unique()\<close> keeps NaN as a value.\<close>

definition unique_count :: "string option list \<Rightarrow> nat" where
  "unique_count s = (if s \<noteq> [] then length (unique s) else 0)"

definition time_range_of :: "int list \<Rightarrow> (int \<times> int) option" where
  "time_range_of ts = (if ts \<noteq> [] then Some (Min (set ts), Max (set ts)) else None)"

text \<open>
  \<^verbatim>\<open>df[name]\<close> for a fixed label, as the list of one field of the rows: KeyError when the
  frame has no such column.
\<close>

definition series :: "dataframe \<Rightarrow> string \<Rightarrow> (packet \<Rightarrow> 'a) \<Rightarrow> error + 'a list" where
  "series f name field =
     (if name \<in> set (columns f) then Inr (map field (rows f)) else Inl (KeyError name))"

text \<open>The next statement runs unless the one before raised.\<close>

definition and_then :: "error + 'a \<Rightarrow> ('a \<Rightarrow> error + 'b) \<Rightarrow> error + 'b" where
  "and_then r k = (case r of Inl e \<Rightarrow> Inl e | Inr x \<Rightarrow> k x)"

text \<open>
  \<^verbatim>\<open>Series.sum()\<close> of an int64 column adds in 64-bit two's complement and wraps around.
\<close>

definition int64 :: "int \<Rightarrow> int" where
  "int64 x = (x + 9223372036854775808) mod 18446744073709551616 - 9223372036854775808"

text \<open>
  The body of the endpoint \<^verbatim>\<open>get_stats\<close> after its guard (the API), statement by
  statement: each \<^verbatim>\<open>filtered_df[name]\<close> can raise KeyError, each \<^verbatim>\<open>mode()[0]\<close> too.
\<close>

definition get_stats_metrics :: "dataframe \<Rightarrow> error + stats" where
  "get_stats_metrics f =
     and_then (series f ''Length'' Length) (\<lambda>lens.
       let total = length (rows f);
           total_bytes = int64 (sum_list lens);
           total_mb = of_int total_bytes / 1048576;
           avg_size = (if total > 0 then of_int total_bytes / of_nat total else 0)
       in
     and_then (series f ''Protocol'' Protocol) (\<lambda>protos.
     and_then (top_value protos) (\<lambda>top_p.
     and_then (series f ''Source IP'' Source_IP) (\<lambda>srcs.
     and_then (top_value srcs) (\<lambda>top_s.
     and_then (series f ''Dest IP'' Dest_IP) (\<lambda>dsts.
     and_then (top_value dsts) (\<lambda>top_d.
     and_then (series f ''Timestamp'' Timestamp) (\<lambda>ts.
       Inr \<lparr>total_packets = total, total_data_bytes = total_bytes,
            total_data_mb = total_mb, avg_packet_size = avg_size,
            top_protocol = top_p, top_source_ip = top_s, top_dest_ip = top_d,
            unique_protocols = unique_count protos,
            time_range = time_range_of ts\<rparr>))))))))"

text \<open>\<^verbatim>\<open>np.mean\<close> of an integer column: it adds in floating point and does not wrap.\<close>

definition mean :: "int list \<Rightarrow> rat" where
  "mean xs = of_int (sum_list xs) / of_nat (length xs)"

text \<open>
  The values \<^verbatim>\<open>_update_stats\<close> computes before it writes the labels (the dashboard), in
  the same way.
\<close>

definition update_stats_metrics :: "dataframe \<Rightarrow> error + stats" where
  "update_stats_metrics f =
     and_then (series f ''Length'' Length) (\<lambda>lens.
       let total = length (rows f);
           total_bytes = int64 (sum_list lens);
           total_mb = of_int total_bytes / 1048576;
           avg_size = (if total > 0 then mean lens else 0)
       in
     and_then (series f ''Protocol'' Protocol) (\<lambda>protos.
     and_then (top_value protos) (\<lambda>top_p.
     and_then (series f ''Source IP'' Source_IP) (\<lambda>srcs.
     and_then (top_value srcs) (\<lambda>top_s.
     and_then (series f ''Dest IP'' Dest_IP) (\<lambda>dsts.
     and_then (top_value dsts) (\<lambda>top_d.
     and_then (series f ''Timestamp'' Timestamp) (\<lambda>ts.
       Inr \<lparr>total_packets = total, total_data_bytes = total_bytes,
            total_data_mb = total_mb, avg_packet_size = avg_size,
            top_protocol = top_p, top_source_ip = top_s, top_dest_ip = top_d,
            unique_protocols = unique_count protos,
            time_range = time_range_of ts\<rparr>))))))))"

section \<open>The HTTP API\<close>

text \<open>
  The query string of a request: each parameter is absent or a string. The process
  holds one global reference \<^verbatim>\<open>df\<close>, \<open>None\<close> until \<^verbatim>\<open>load_data\<close> has read the file.
\<close>

record params =
  protocol :: "string option"
  source_ip :: "string option"
  dest_ip :: "string option"
  sort_by :: "string option"
  ascending :: "string option"

record api =
  api_mem :: heap
  global_df :: "addr option"

definition api_start :: api where
  "api_start = \<lparr>api_mem = \<lparr>objs = (\<lambda>a. DataFrame), fresh = 0\<rparr>, global_df = None\<rparr>"

text \<open>
  \<^verbatim>\<open>load_data\<close> of the API: the file content, or \<open>None\<close> when the file is missing or
  cannot be read; it returns whether it succeeded.
\<close>

definition api_load_data :: "packet list option \<Rightarrow> api \<Rightarrow> bool \<times> api" where
  "api_load_data file st =
     (case file of
        None \<Rightarrow> (False, st)
      | Some rs \<Rightarrow>
          (let (d, h) = new_obj (read_csv rs) (api_mem st)
           in (True, st\<lparr>api_mem := h, global_df := Some d\<rparr>)))"

text \<open>\<^verbatim>\<open>params.get(key, default)\<close>; an absent parameter and an empty one are both falsy.\<close>

definition args_get :: "string option \<Rightarrow> string \<Rightarrow> string" where
  "args_get v dflt = (case v of None \<Rightarrow> dflt | Some s \<Rightarrow> s)"

definition get_filtered_df :: "lib \<Rightarrow> params \<Rightarrow> api \<Rightarrow> (error + addr) \<times> api" where
  "get_filtered_df l ps st =
     (case global_df st of
        None \<Rightarrow> (let (a, h) = new_obj DataFrame (api_mem st) in (Inr a, st\<lparr>api_mem := h\<rparr>))
      | Some d \<Rightarrow>
          (let (a0, h0) = copy d (api_mem st);
               (a1, h1) = protocol_filter (args_get (protocol ps) []) a0 h0
           in case contains_filter l ''Source IP'' Source_IP (args_get (source_ip ps) []) a1 h1 of
                (Inl e, h2) \<Rightarrow> (Inl e, st\<lparr>api_mem := h2\<rparr>)
              | (Inr a2, h2) \<Rightarrow>
                  (case contains_filter l ''Dest IP'' Dest_IP (args_get (dest_ip ps) []) a2 h2 of
                     (Inl e, h3) \<Rightarrow> (Inl e, st\<lparr>api_mem := h3\<rparr>)
                   | (Inr a3, h3) \<Rightarrow>
                       (if args_get (sort_by ps) [] \<noteq> []
                        then (case sort_values_inplace l (args_get (sort_by ps) [])
                                     (args_get (ascending ps) ''True'' = ''True'') a3 h3 of
                                Inl e \<Rightarrow> (Inl e, st\<lparr>api_mem := h3\<rparr>)
                              | Inr h4 \<Rightarrow> (Inr a3, st\<lparr>api_mem := h4\<rparr>))
                        else (Inr a3, st\<lparr>api_mem := h3\<rparr>)))))"

text \<open>
  What a view function answers: a JSON body (with status 200 unless given), or an
  exception that leaves the view function, which Flask turns into its status 500.
\<close>

datatype response =
    Json_stats stats
  | Json_error string nat
  | Json_rows "packet list"
  | Json_counts "(string \<times> nat) list"
  | Unhandled error

definition get_stats :: "lib \<Rightarrow> params \<Rightarrow> api \<Rightarrow> response \<times> api" where
  "get_stats l ps st =
     (case get_filtered_df l ps st of
        (Inl e, st1) \<Rightarrow> (Unhandled e, st1)
      | (Inr a, st1) \<Rightarrow>
          (if df_empty (objs (api_mem st1) a) then (Json_error ''No data'' 404, st1)
           else (case get_stats_metrics (objs (api_mem st1) a) of
                   Inl e \<Rightarrow> (Unhandled e, st1)
                 | Inr s \<Rightarrow> (Json_stats s, st1))))"

text \<open>
  \<^verbatim>\<open>get_data\<close> replaces the Timestamp column of the 200-row head by its formatted text
  before it serialises the rows; the rows are given here with their instants.
\<close>

definition get_data :: "lib \<Rightarrow> params \<Rightarrow> api \<Rightarrow> response \<times> api" where
  "get_data l ps st =
     (case get_filtered_df l ps st of
        (Inl e, st1) \<Rightarrow> (Unhandled e, st1)
      | (Inr a, st1) \<Rightarrow>
          (let (b, h) = df_head 200 a (api_mem st1)
           in if ''Timestamp'' \<in> set (columns (objs h b))
              then (Json_rows (rows (objs h b)), st1\<lparr>api_mem := h\<rparr>)
              else (Unhandled (KeyError ''Timestamp''), st1\<lparr>api_mem := h\<rparr>)))"

definition get_protocol_plot_data :: "lib \<Rightarrow> params \<Rightarrow> api \<Rightarrow> response \<times> api" where
  "get_protocol_plot_data l ps st =
     (case get_filtered_df l ps st of
        (Inl e, st1) \<Rightarrow> (Unhandled e, st1)
      | (Inr a, st1) \<Rightarrow>
          (if df_empty (objs (api_mem st1) a) then (Json_counts [], st1)
           else (Json_counts (value_counts l (map Protocol (rows (objs (api_mem st1) a)))), st1)))"

definition get_top_ips_plot_data :: "lib \<Rightarrow> params \<Rightarrow> api \<Rightarrow> response \<times> api" where
  "get_top_ips_plot_data l ps st =
     (case get_filtered_df l ps st of
        (Inl e, st1) \<Rightarrow> (Unhandled e, st1)
      | (Inr a, st1) \<Rightarrow>
          (if df_empty (objs (api_mem st1) a) then (Json_counts [], st1)
           else (Json_counts (head 5 (value_counts l (map Dest_IP (rows (objs (api_mem st1) a))))),
                 st1)))"

datatype endpoint = Api_stats | Api_data | Api_plot_protocol | Api_plot_top_ips

fun handle :: "lib \<Rightarrow> endpoint \<times> params \<Rightarrow> api \<Rightarrow> response \<times> api" where
  "handle l (Api_stats, ps) st = get_stats l ps st"
| "handle l (Api_data, ps) st = get_data l ps st"
| "handle l (Api_plot_protocol, ps) st = get_protocol_plot_data l ps st"
| "handle l (Api_plot_top_ips, ps) st = get_top_ips_plot_data l ps st"

text \<open>The server answers requests one after the other.\<close>

fun serve :: "lib \<Rightarrow> (endpoint \<times> params) list \<Rightarrow> api \<Rightarrow> response list \<times> api" where
  "serve l [] st = ([], st)"
| "serve l (rq # rqs) st =
     (let (r, st1) = handle l rq st; (rs, st2) = serve l rqs st1 in (r # rs, st2))"


section \<open>The dashboard\<close>

text \<open>
  The state of \<^verbatim>\<open>NetTrafficAnalyzer\<close>: the two DataFrame references, the sort state, the
  three filter variables, and what the widgets show: the status line, the key metrics
  (\<open>None\<close> when every label reads \<^verbatim>\<open>"N/A"\<close>), the rows of the table and, for each column
  heading, the \<open>reverse\<close> argument its command passes to \<^verbatim>\<open>_sort_treeview\<close>. The two
  charts are not part of the state.
\<close>

datatype status =
    Application_ready
  | Loading_cancelled
  | Loaded nat
  | Error_loading error
  | Error_populating error
  | No_data_to_filter
  | Filters_applied nat
  | Filters_cleared nat
  | Error_applying_filter error
  | Error_updating_stats error
  | Sorted_by string bool
  | Error_sorting string error

record gui =
  mem :: heap
  df :: "addr option"
  current_df :: "addr option"
  sort_state :: "string \<rightharpoonup> bool"
  protocol_filter_var :: string
  source_ip_filter_var :: string
  dest_ip_filter_var :: string
  status_label :: status
  stats_labels :: "stats option"
  tree :: "packet list"
  headings :: "(string \<times> bool) list"

definition gui_start :: gui where
  "gui_start =
     \<lparr>mem = \<lparr>objs = (\<lambda>a. DataFrame), fresh = 0\<rparr>, df = None, current_df = None,
      sort_state = Map.empty, protocol_filter_var = [], source_ip_filter_var = [],
      dest_ip_filter_var = [], status_label = Application_ready, stats_labels = None,
      tree = [], headings = []\<rparr>"

definition clear_dashboard :: "gui \<Rightarrow> gui" where
  "clear_dashboard g = g\<lparr>stats_labels := None, tree := []\<rparr>"

definition update_table :: "addr \<Rightarrow> gui \<Rightarrow> gui" where
  "update_table a g =
     g\<lparr>headings := map (\<lambda>c. (c, \<not> (case sort_state g c of None \<Rightarrow> False | Some r \<Rightarrow> r)))
                       (columns (objs (mem g) a)),
       tree := head 200 (rows (objs (mem g) a))\<rparr>"

definition update_dashboard :: "gui \<Rightarrow> gui" where
  "update_dashboard g =
     (case current_df g of
        None \<Rightarrow> clear_dashboard g
      | Some a \<Rightarrow>
          (if df_empty (objs (mem g) a) then clear_dashboard g
           else update_table a
                  (case update_stats_metrics (objs (mem g) a) of
                     Inl e \<Rightarrow> g\<lparr>status_label := Error_updating_stats e\<rparr>
                   | Inr s \<Rightarrow> g\<lparr>stats_labels := Some s\<rparr>)))"

text \<open>
  \<^verbatim>\<open>_populate_filter_options\<close> sorts the distinct protocols with Python's \<^verbatim>\<open>sorted\<close>, which
  raises TypeError when it has to compare NaN with a string; the method reports it.
\<close>

definition populate_filter_options :: "gui \<Rightarrow> gui" where
  "populate_filter_options g =
     (case df g of
        None \<Rightarrow> g\<lparr>protocol_filter_var := ''All''\<rparr>
      | Some d \<Rightarrow>
          (let u = unique (map Protocol (rows (objs (mem g) d)))
           in if None \<in> set u \<and> 2 \<le> length u then g\<lparr>status_label := Error_populating TypeError\<rparr>
              else g\<lparr>protocol_filter_var := ''All''\<rparr>))"

datatype file_choice = Cancelled | Unreadable error | File "packet list"

definition load_data :: "file_choice \<Rightarrow> gui \<Rightarrow> gui" where
  "load_data choice g =
     (case choice of
        Cancelled \<Rightarrow> g\<lparr>status_label := Loading_cancelled\<rparr>
      | Unreadable e \<Rightarrow>
          clear_dashboard (g\<lparr>status_label := Error_loading e, df := None, current_df := None\<rparr>)
      | File rs \<Rightarrow>
          (let (d, h0) = new_obj (read_csv rs) (mem g);
               (c, h1) = copy d h0;
               g1 = update_dashboard
                      (populate_filter_options (g\<lparr>mem := h1, df := Some d, current_df := Some c\<rparr>))
           in g1\<lparr>status_label := Loaded (length rs)\<rparr>))"

text \<open>
  \<^verbatim>\<open>apply_filter\<close>. Its body runs in a \<^verbatim>\<open>try\<close>; an exception leaves \<^verbatim>\<open>current_df\<close> as it was
  and is reported in the status line.
\<close>

definition apply_filter :: "lib \<Rightarrow> gui \<Rightarrow> gui" where
  "apply_filter l g =
     (case df g of
        None \<Rightarrow> g\<lparr>status_label := No_data_to_filter\<rparr>
      | Some d \<Rightarrow>
          (let (a0, h0) = copy d (mem g);
               selected_protocol = protocol_filter_var g;
               (a1, h1) = protocol_filter selected_protocol a0 h0;
               src = strip (source_ip_filter_var g);
               dst = strip (dest_ip_filter_var g)
           in case contains_filter l ''Source IP'' Source_IP src a1 h1 of
                (Inl e, h2) \<Rightarrow> g\<lparr>mem := h2, status_label := Error_applying_filter e\<rparr>
              | (Inr a2, h2) \<Rightarrow>
                  (case contains_filter l ''Dest IP'' Dest_IP dst a2 h2 of
                     (Inl e, h3) \<Rightarrow> g\<lparr>mem := h3, status_label := Error_applying_filter e\<rparr>
                   | (Inr a3, h3) \<Rightarrow>
                       (let g1 = update_dashboard (g\<lparr>mem := h3, current_df := Some a3\<rparr>);
                            n = length (rows (objs h3 a3))
                        in if (selected_protocol \<noteq> [] \<and> selected_protocol \<noteq> ''All'')
                              \<or> src \<noteq> [] \<or> dst \<noteq> []
                           then g1\<lparr>status_label := Filters_applied n\<rparr>
                           else g1\<lparr>status_label := Filters_cleared n\<rparr>))))"

definition clear_filters :: "lib \<Rightarrow> gui \<Rightarrow> gui" where
  "clear_filters l g =
     apply_filter l (g\<lparr>protocol_filter_var := ''All'', source_ip_filter_var := [],
                       dest_ip_filter_var := [], sort_state := Map.empty\<rparr>)"

text \<open>
  \<^verbatim>\<open>_sort_treeview(col, reverse)\<close>: it returns at once on a missing or empty view;
  otherwise it records the sort state, sorts \<^verbatim>\<open>current_df\<close> in place and refreshes the
  table, reporting an exception in the status line.
\<close>

definition sort_treeview :: "lib \<Rightarrow> string \<Rightarrow> bool \<Rightarrow> gui \<Rightarrow> gui" where
  "sort_treeview l col reverse g =
     (case current_df g of
        None \<Rightarrow> g
      | Some a \<Rightarrow>
          (if df_empty (objs (mem g) a) then g
           else (let g1 = g\<lparr>sort_state := [col \<mapsto> reverse]\<rparr>
                 in case sort_values_inplace l col (\<not> reverse) a (mem g1) of
                      Inl e \<Rightarrow> g1\<lparr>status_label := Error_sorting col e\<rparr>
                    | Inr h \<Rightarrow> (update_table a (g1\<lparr>mem := h\<rparr>))\<lparr>status_label := Sorted_by col reverse\<rparr>)))"

text \<open>
  What the user can do: pick a file, pick a protocol in the combobox (which applies the
  filters), type into the two address fields, press the two buttons, click a heading.
\<close>

datatype event =
    Load_data file_choice
  | Select_protocol string
  | Type_source_ip string
  | Type_dest_ip string
  | Apply_filter
  | Clear_filters
  | Sort_treeview string bool

fun step :: "lib \<Rightarrow> event \<Rightarrow> gui \<Rightarrow> gui" where
  "step l (Load_data choice) g = load_data choice g"
| "step l (Select_protocol p) g = apply_filter l (g\<lparr>protocol_filter_var := p\<rparr>)"
| "step l (Type_source_ip s) g = g\<lparr>source_ip_filter_var := s\<rparr>"
| "step l (Type_dest_ip s) g = g\<lparr>dest_ip_filter_var := s\<rparr>"
| "step l Apply_filter g = apply_filter l g"
| "step l Clear_filters g = clear_filters l g"
| "step l (Sort_treeview col reverse) g = sort_treeview l col reverse g"

fun run :: "lib \<Rightarrow> event list \<Rightarrow> gui \<Rightarrow> gui" where
  "run l [] g = g"
| "run l (ev # evs) g = run l evs (step l ev g)"

fun is_load :: "event \<Rightarrow> bool" where
  "is_load (Load_data choice) = True"
| "is_load ev = False"


section \<open>Views, orders and the substring test\<close>

text \<open>The baseline table and the current view of each program, as frames.\<close>

definition gui_table :: "gui \<Rightarrow> dataframe option" where
  "gui_table g = map_option (objs (mem g)) (df g)"

definition gui_view :: "gui \<Rightarrow> dataframe option" where
  "gui_view g = map_option (objs (mem g)) (current_df g)"

definition api_table :: "api \<Rightarrow> dataframe option" where
  "api_table st = map_option (objs (api_mem st)) (global_df st)"

text \<open>The frame \<^verbatim>\<open>get_filtered_df\<close> returns, or the exception it raises.\<close>

definition filtered :: "lib \<Rightarrow> params \<Rightarrow> api \<Rightarrow> error + dataframe" where
  "filtered l ps st =
     (case get_filtered_df l ps st of
        (Inl e, st1) \<Rightarrow> Inl e
      | (Inr a, st1) \<Rightarrow> Inr (objs (api_mem st1) a))"

text \<open>
  The order a sort by one column asks for: \<open>before asc x y\<close> says that a cell \<open>x\<close> may
  stand before a cell \<open>y\<close>. Missing values stand last in both directions.
\<close>

fun before :: "bool \<Rightarrow> scalar option \<Rightarrow> scalar option \<Rightarrow> bool" where
  "before asc x None = True"
| "before asc None (Some y) = False"
| "before asc (Some x) (Some y) = (if asc then x \<le> y else y \<le> x)"

definition ordered :: "string \<Rightarrow> bool \<Rightarrow> packet list \<Rightarrow> bool" where
  "ordered col asc rs = sorted_wrt (before asc) (map (cell col) rs)"

text \<open>
  The specification's substring test: \<open>s\<close> contains \<open>sub\<close>, letter case ignored.
\<close>

fun starts_with :: "string \<Rightarrow> string \<Rightarrow> bool" where
  "starts_with [] s = True"
| "starts_with (p # ps) [] = False"
| "starts_with (p # ps) (c # cs) = (lower p = lower c \<and> starts_with ps cs)"

fun spec_contains :: "string \<Rightarrow> string \<Rightarrow> bool" where
  "spec_contains sub [] = starts_with sub []"
| "spec_contains sub (c # cs) = (starts_with sub (c # cs) \<or> spec_contains sub cs)"

subsection \<open>A small table\<close>

text \<open>The three records of the specification's scenarios, and one more address.\<close>

definition rec1 :: packet where
  "rec1 = \<lparr>Timestamp = 1, Source_IP = Some ''A'', Dest_IP = Some ''B'',
            Protocol = Some ''TCP'', Length = 100, Port = Some 80\<rparr>"

definition rec2 :: packet where
  "rec2 = \<lparr>Timestamp = 2, Source_IP = Some ''A'', Dest_IP = Some ''C'',
            Protocol = Some ''UDP'', Length = 200, Port = Some 53\<rparr>"

definition rec3 :: packet where
  "rec3 = \<lparr>Timestamp = 3, Source_IP = Some ''C'', Dest_IP = Some ''B'',
            Protocol = Some ''TCP'', Length = 50, Port = Some 443\<rparr>"

definition rec4 :: packet where
  "rec4 = \<lparr>Timestamp = 4, Source_IP = Some ''10.0.0.121'', Dest_IP = Some ''10.0.0.7'',
            Protocol = Some ''DNS'', Length = 64, Port = Some 53\<rparr>"

definition no_params :: params where
  "no_params = \<lparr>protocol = None, source_ip = None, dest_ip = None, sort_by = None,
                ascending = None\<rparr>"

definition api_with :: "packet list \<Rightarrow> api" where
  "api_with rs = snd (api_load_data (Some rs) api_start)"

definition gui_with :: "packet list \<Rightarrow> gui" where
  "gui_with rs = load_data (File rs) gui_start"


subsection \<open>What stays in place\<close>

text \<open>
  \<open>keeps_below n h h1\<close>: the heap \<open>h1\<close> still holds every object of \<open>h\<close> with a reference
  below \<open>n\<close>, unchanged. The baseline table of a running program lies below the next
  unused reference, and the dashboard's current view is another object.
\<close>

definition keeps_below :: "addr \<Rightarrow> heap \<Rightarrow> heap \<Rightarrow> bool" where
  "keeps_below n h h1 = (n \<le> fresh h1 \<and> (\<forall>a < n. objs h1 a = objs h a))"

definition gui_ok :: "gui \<Rightarrow> bool" where
  "gui_ok g = (case df g of None \<Rightarrow> True
               | Some d \<Rightarrow> d < fresh (mem g) \<and> current_df g \<noteq> Some d)"

definition api_ok :: "api \<Rightarrow> bool" where
  "api_ok st = (case global_df st of None \<Rightarrow> True | Some d \<Rightarrow> d < fresh (api_mem st))"

section \<open>Facts about the objects and the widgets\<close>

lemma new_obj_simps:
  "fst (new_obj f h) = fresh h"
  "fresh (snd (new_obj f h)) = Suc (fresh h)"
  "objs (snd (new_obj f h)) = (objs h)(fresh h := f)"
  by (simp_all add: new_obj_def)

lemma update_table_keeps [simp]:
  "mem (update_table a g) = mem g" "df (update_table a g) = df g"
  "current_df (update_table a g) = current_df g"
  "status_label (update_table a g) = status_label g"
  "sort_state (update_table a g) = sort_state g"
  by (simp_all add: update_table_def)

lemma clear_dashboard_keeps [simp]:
  "mem (clear_dashboard g) = mem g" "df (clear_dashboard g) = df g"
  "current_df (clear_dashboard g) = current_df g"
  "status_label (clear_dashboard g) = status_label g"
  "sort_state (clear_dashboard g) = sort_state g"
  by (simp_all add: clear_dashboard_def)

lemma update_dashboard_keeps [simp]:
  "mem (update_dashboard g) = mem g" "df (update_dashboard g) = df g"
  "current_df (update_dashboard g) = current_df g"
  by (simp_all add: update_dashboard_def split: option.splits sum.splits)

lemma strip_Nil [simp]: "strip [] = []"
  by (simp add: strip_def)

lemma contains_filter_Nil [simp]: "contains_filter l nm c [] a h = (Inr a, h)"
  by (simp add: contains_filter_def)

lemma protocol_filter_none [simp]:
  "protocol_filter [] a h = (a, h)" "protocol_filter ''All'' a h = (a, h)"
  by (simp_all add: protocol_filter_def)

section \<open>Facts about sorting\<close>

lemma before_None_list: "\<forall>x \<in> set xs. x = None \<Longrightarrow> sorted_wrt (before asc) xs"
  by (induction xs) auto

lemma before_Some_asc: "sorted xs \<Longrightarrow> sorted_wrt (before True) (map Some xs)"
  by (induction xs) auto

lemma before_Some_desc: "sorted xs \<Longrightarrow> sorted_wrt (before False) (rev (map Some xs))"
  by (induction xs) (auto simp: sorted_wrt_append)

lemma mset_split_nan:
  "mset (filter (\<lambda>i. f i \<noteq> None) xs) + mset (filter (\<lambda>i. f i = None) xs) = mset xs"
  by (induction xs) auto

lemma kernel_perm:
  assumes "argsort_sorts k"
  shows "mset (map (\<lambda>j. ys ! j) (k (map g ys))) = mset ys"
proof -
  have "mset (k (map g ys)) = mset [0..<length ys]"
    using assms by (simp add: argsort_sorts_def)
  then have "mset (map (\<lambda>j. ys ! j) (k (map g ys))) = mset (map (\<lambda>j. ys ! j) [0..<length ys])"
    by (metis mset_map)
  then show ?thesis by (simp add: map_nth)
qed

lemma kernel_cells:
  assumes "argsort_sorts k" and "\<forall>i \<in> set ys. items ! i \<noteq> None"
    and "vs = map (\<lambda>i. the (items ! i)) ys"
  shows "map (\<lambda>i. items ! i) (map (\<lambda>j. ys ! j) (k vs)) = map Some (map (\<lambda>j. vs ! j) (k vs))"
proof -
  have "set (k vs) = set [0..<length vs]"
    using assms(1) by (metis argsort_sorts_def mset_eq_setD)
  then have "\<forall>j \<in> set (k vs). j < length ys" using assms(3) by simp
  with assms(2,3) show ?thesis by (auto simp: comp_def)
qed

lemma nargsort_unfold:
  "nargsort k items asc =
     (let nn = filter (\<lambda>i. items ! i \<noteq> None) [0..<length items];
          nn1 = (if asc then nn else rev nn);
          ix = map (\<lambda>j. nn1 ! j) (k (map (\<lambda>i. the (items ! i)) nn1))
      in (if asc then ix else rev ix) @ filter (\<lambda>i. items ! i = None) [0..<length items])"
  by (simp add: nargsort_def Let_def rev_map)

lemma nargsort_mset:
  assumes "argsort_sorts k"
  shows "mset (nargsort k items asc) = mset [0..<length items]"
proof -
  let ?nn = "filter (\<lambda>i. items ! i \<noteq> None) [0..<length items]"
  let ?nan = "filter (\<lambda>i. items ! i = None) [0..<length items]"
  have "mset (nargsort k items asc) = mset ?nn + mset ?nan"
    unfolding nargsort_unfold Let_def
    using kernel_perm [OF assms, of ?nn] kernel_perm [OF assms, of "rev ?nn"]
    by (cases asc) simp_all
  also have "\<dots> = mset [0..<length items]"
    by (rule mset_split_nan)
  finally show ?thesis .
qed

lemma nargsort_ordered:
  assumes "argsort_sorts k"
  shows "sorted_wrt (before asc) (map (\<lambda>i. items ! i) (nargsort k items asc))"
proof -
  let ?g = "\<lambda>i. the (items ! i)"
  let ?nn = "filter (\<lambda>i. items ! i \<noteq> None) [0..<length items]"
  let ?nan = "filter (\<lambda>i. items ! i = None) [0..<length items]"
  have srt: "sorted (map (\<lambda>j. vs ! j) (k vs))" for vs
    using assms by (simp add: argsort_sorts_def)
  have nan: "sorted_wrt (before asc) (map (\<lambda>i. items ! i) ?nan)"
    by (rule before_None_list) auto
  have cross: "\<forall>x \<in> set xs. \<forall>y \<in> set (map (\<lambda>i. items ! i) ?nan). before asc x y" for xs
    by auto
  have body: "sorted_wrt (before asc) (map (\<lambda>i. items ! i)
       (let nn1 = (if asc then ?nn else rev ?nn);
            ix = map (\<lambda>j. nn1 ! j) (k (map ?g nn1))
        in if asc then ix else rev ix))"
  proof (cases asc)
    case True
    define ys where "ys = ?nn"
    define vs where "vs = map ?g ys"
    have e: "map (\<lambda>i. items ! i) (map (\<lambda>j. ys ! j) (k vs)) = map Some (map (\<lambda>j. vs ! j) (k vs))"
      by (rule kernel_cells [OF assms _ vs_def]) (simp add: ys_def)
    have "sorted_wrt (before True) (map (\<lambda>i. items ! i) (map (\<lambda>j. ys ! j) (k vs)))"
      unfolding e by (rule before_Some_asc [OF srt])
    then show ?thesis
      using True by (simp only: Let_def if_True ys_def vs_def)
  next
    case False
    define ys where "ys = rev ?nn"
    define vs where "vs = map ?g ys"
    have e: "map (\<lambda>i. items ! i) (map (\<lambda>j. ys ! j) (k vs)) = map Some (map (\<lambda>j. vs ! j) (k vs))"
      by (rule kernel_cells [OF assms _ vs_def]) (simp add: ys_def)
    have "sorted_wrt (before False) (rev (map (\<lambda>i. items ! i) (map (\<lambda>j. ys ! j) (k vs))))"
      unfolding e by (rule before_Some_desc [OF srt])
    then have "sorted_wrt (before False) (map (\<lambda>i. items ! i) (rev (map (\<lambda>j. ys ! j) (k vs))))"
      by (simp only: rev_map)
    then show ?thesis
      using False by (simp only: Let_def if_False ys_def vs_def)
  qed
  show ?thesis
    unfolding nargsort_unfold
    using body nan cross by (simp only: Let_def map_append sorted_wrt_append) blast
qed


lemma stable_argsort_sorts: "argsort_sorts stable_argsort"
  by (simp add: argsort_sorts_def stable_argsort_def)

lemma reference_lib_sorts: "argsort_sorts (argsort reference_lib)"
  by (simp add: reference_lib_def stable_argsort_sorts)

lemma sort_values_known:
  "col \<in> set (columns f) \<Longrightarrow>
   sort_values l col asc f =
     Inr (f\<lparr>rows := map (\<lambda>i. rows f ! i) (nargsort (argsort l) (map (cell col) (rows f)) asc)\<rparr>)"
  by (simp add: sort_values_def getitem_def)

lemma sort_values_unknown:
  "col \<notin> set (columns f) \<Longrightarrow> sort_values l col asc f = Inl (KeyError col)"
  by (simp add: sort_values_def getitem_def)

lemma sort_values_columns:
  "sort_values l col asc f = Inr f1 \<Longrightarrow> columns f1 = columns f \<and> col \<in> set (columns f)"
  by (auto simp: sort_values_def getitem_def split: if_splits)

lemma take_rows_mset:
  assumes "mset ix = mset [0..<length xs]"
  shows "mset (map (\<lambda>i. xs ! i) ix) = mset xs"
proof -
  have "mset (map (\<lambda>i. xs ! i) ix) = mset (map (\<lambda>i. xs ! i) [0..<length xs])"
    using assms by (metis mset_map)
  then show ?thesis by (simp add: map_nth)
qed

lemma take_rows_cells:
  assumes "mset ix = mset [0..<length xs]"
  shows "map f (map (\<lambda>i. xs ! i) ix) = map (\<lambda>i. map f xs ! i) ix"
proof -
  have "set ix = set [0..<length xs]" using assms by (rule mset_eq_setD)
  then show ?thesis by auto
qed

lemma sort_values_perm:
  assumes "argsort_sorts (argsort l)" and "sort_values l col asc f = Inr f1"
  shows "mset (rows f1) = mset (rows f)"
proof -
  have "mset (nargsort (argsort l) (map (cell col) (rows f)) asc) = mset [0..<length (rows f)]"
    using nargsort_mset [OF assms(1), of "map (cell col) (rows f)" asc] by simp
  then have "mset (map (\<lambda>i. rows f ! i) (nargsort (argsort l) (map (cell col) (rows f)) asc))
             = mset (rows f)"
    by (rule take_rows_mset)
  moreover have "rows f1 = map (\<lambda>i. rows f ! i) (nargsort (argsort l) (map (cell col) (rows f)) asc)"
    using assms(2) by (auto simp: sort_values_def getitem_def split: if_splits)
  ultimately show ?thesis by simp
qed

lemma sort_values_ordered:
  assumes "argsort_sorts (argsort l)" and "sort_values l col asc f = Inr f1"
  shows "ordered col asc (rows f1)"
proof -
  let ?ix = "nargsort (argsort l) (map (cell col) (rows f)) asc"
  have ix: "mset ?ix = mset [0..<length (rows f)]"
    using nargsort_mset [OF assms(1), of "map (cell col) (rows f)" asc] by simp
  have "rows f1 = map (\<lambda>i. rows f ! i) ?ix"
    using assms(2) by (auto simp: sort_values_def getitem_def split: if_splits)
  then have "map (cell col) (rows f1) = map (\<lambda>i. map (cell col) (rows f) ! i) ?ix"
    using take_rows_cells [OF ix] by simp
  then show ?thesis
    unfolding ordered_def using nargsort_ordered [OF assms(1), of asc "map (cell col) (rows f)"]
    by simp
qed

lemma before_antisym: "before asc x y \<Longrightarrow> before asc y x \<Longrightarrow> x = y"
  by (cases x; cases y) (auto split: if_splits)

lemma sorted_wrt_unique:
  assumes "sorted_wrt R xs" and "sorted_wrt R ys" and "mset xs = mset ys"
    and "\<And>x y. x \<in> set xs \<Longrightarrow> y \<in> set xs \<Longrightarrow> R x y \<Longrightarrow> R y x \<Longrightarrow> x = y"
  shows "xs = ys"
  using assms
proof (induction xs arbitrary: ys)
  case Nil
  then show ?case by simp
next
  case (Cons x xs)
  from Cons.prems(3) obtain y ys1 where ys: "ys = y # ys1"
    by (cases ys) auto
  have sets: "set (x # xs) = set (y # ys1)"
    using Cons.prems(3) ys by (metis mset_eq_setD)
  have "x = y"
  proof (rule ccontr)
    assume ne: "x \<noteq> y"
    then have mem: "y \<in> set xs" "x \<in> set ys1" using sets by auto
    then have "R x y" and "R y x" using Cons.prems(1,2) ys by auto
    then have "x = y" using Cons.prems(4) [of x y] mem(1) by simp
    then show False using ne by simp
  qed
  moreover have "xs = ys1"
  proof (rule Cons.IH)
    show "sorted_wrt R xs" using Cons.prems(1) by simp
    show "sorted_wrt R ys1" using Cons.prems(2) ys by simp
    show "mset xs = mset ys1" using Cons.prems(3) ys \<open>x = y\<close> by simp
    show "\<And>a b. a \<in> set xs \<Longrightarrow> b \<in> set xs \<Longrightarrow> R a b \<Longrightarrow> R b a \<Longrightarrow> a = b"
      using Cons.prems(4) by simp
  qed
  ultimately show ?case using ys by simp
qed

lemma ordered_unique:
  assumes "ordered col asc xs" and "ordered col asc ys" and "mset xs = mset ys"
    and "distinct (map (cell col) xs)"
  shows "xs = ys"
proof (rule sorted_wrt_unique [where R = "\<lambda>a b. before asc (cell col a) (cell col b)"])
  show "sorted_wrt (\<lambda>a b. before asc (cell col a) (cell col b)) xs"
    using assms(1) by (simp add: ordered_def sorted_wrt_map)
  show "sorted_wrt (\<lambda>a b. before asc (cell col a) (cell col b)) ys"
    using assms(2) by (simp add: ordered_def sorted_wrt_map)
  show "mset xs = mset ys" by (rule assms(3))
  show "x = y" if "x \<in> set xs" "y \<in> set xs" "before asc (cell col x) (cell col y)"
    "before asc (cell col y) (cell col x)" for x y
  proof -
    have "cell col x = cell col y" using that(3,4) by (rule before_antisym)
    moreover have "inj_on (cell col) (set xs)" using assms(4) by (simp add: distinct_map)
    ultimately show ?thesis using that(1,2) by (auto dest: inj_onD)
  qed
qed


lemma sort_values_shape: "sort_values l col asc f = Inr f1 \<Longrightarrow> f\<lparr>rows := rows f1\<rparr> = f1"
  by (auto simp: sort_values_def getitem_def split: if_splits)

lemma sort_treeview_sorted:
  assumes "current_df g = Some a" and "\<not> df_empty (objs (mem g) a)"
    and "sort_values l col (\<not> reverse) (objs (mem g) a) = Inr f1"
  shows "gui_view (sort_treeview l col reverse g) = Some f1"
  using assms by (simp add: sort_treeview_def sort_values_inplace_def gui_view_def)

lemma sort_treeview_failed:
  assumes "current_df g = Some a" and "\<not> df_empty (objs (mem g) a)"
    and "sort_values l col (\<not> reverse) (objs (mem g) a) = Inl e"
  shows "sort_treeview l col reverse g =
           g\<lparr>sort_state := [col \<mapsto> reverse], status_label := Error_sorting col e\<rparr>"
  using assms by (simp add: sort_treeview_def sort_values_inplace_def)

lemma sorted_frame:
  assumes "argsort_sorts (argsort l)" and "col \<in> set (columns f)"
  obtains f1 where "sort_values l col asc f = Inr f1" and "columns f1 = columns f"
    and "mset (rows f1) = mset (rows f)" and "ordered col asc (rows f1)"
    and "f\<lparr>rows := rows f1\<rparr> = f1"
proof -
  obtain f1 where f1: "sort_values l col asc f = Inr f1"
    using assms(2) by (simp add: sort_values_known)
  have "columns f1 = columns f"
    using sort_values_columns [OF f1] by simp
  then show ?thesis
    using that [OF f1] sort_values_perm [OF assms(1) f1]
      sort_values_ordered [OF assms(1) f1] sort_values_shape [OF f1] by blast
qed

lemma df_empty_perm:
  "columns f1 = columns f \<Longrightarrow> mset (rows f1) = mset (rows f) \<Longrightarrow> df_empty f1 = df_empty f"
  by (auto simp: df_empty_def)

section \<open>Facts about the API's pipeline\<close>

lemma contains_filter_cases:
  "(\<exists>e. contains_filter l nm c pat a h = (Inl e, h))
   \<or> contains_filter l nm c pat a h = (Inr a, h)
   \<or> (\<exists>p. contains_filter l nm c pat a h
            = (Inr (fresh h), snd (new_obj ((objs h a)\<lparr>rows := filter p (rows (objs h a))\<rparr>) h)))"
proof (cases "pat = []")
  case True
  then show ?thesis by simp
next
  case False
  then show ?thesis
    by (cases "str_contains l pat") (auto simp: contains_filter_def select_def new_obj_def)
qed

lemma get_filtered_df_sort:
  assumes "global_df st = Some d" and "sort_by ps = Some col" and "col \<noteq> []"
  shows "get_filtered_df l ps st =
           (case get_filtered_df l (ps\<lparr>sort_by := None\<rparr>) st of
              (Inl e, st1) \<Rightarrow> (Inl e, st1)
            | (Inr a, st1) \<Rightarrow>
                (case sort_values_inplace l col (args_get (ascending ps) ''True'' = ''True'') a
                        (api_mem st1) of
                   Inl e \<Rightarrow> (Inl e, st1)
                 | Inr h \<Rightarrow> (Inr a, st1\<lparr>api_mem := h\<rparr>)))"
  using assms
  by (simp add: get_filtered_df_def args_get_def Let_def split: prod.splits sum.splits)

lemma filtered_sort:
  assumes "global_df st = Some d" and "sort_by ps = Some col" and "col \<noteq> []"
  shows "filtered l ps st =
           (case filtered l (ps\<lparr>sort_by := None\<rparr>) st of
              Inl e \<Rightarrow> Inl e
            | Inr v \<Rightarrow> sort_values l col (args_get (ascending ps) ''True'' = ''True'') v)"
  unfolding filtered_def get_filtered_df_sort [OF assms]
  by (simp add: sort_values_inplace_def split: prod.splits sum.splits)

lemma ascending_flag:
  "(args_get v ''True'' = ''True'') = (v = None \<or> v = Some ''True'')"
  by (cases v) (simp_all add: args_get_def)

lemma contains_filter_columns:
  assumes "contains_filter l nm c pat a h = (Inr a1, h1)"
  shows "columns (objs h1 a1) = columns (objs h a)"
  using assms contains_filter_cases [of l nm c pat a h]
  by (auto simp: new_obj_def)

lemma protocol_filter_columns:
  assumes "protocol_filter p a h = (a1, h1)"
  shows "columns (objs h1 a1) = columns (objs h a)"
  using assms by (auto simp: protocol_filter_def select_def new_obj_def split: if_splits)

lemma copy_content: "copy d h = (a, h1) \<Longrightarrow> objs h1 a = objs h d"
  by (auto simp: copy_def new_obj_def)

lemma filtered_columns:
  assumes "api_table st = Some t" and "filtered l (ps\<lparr>sort_by := None\<rparr>) st = Inr v"
  shows "columns v = columns t"
proof -
  from assms(1) obtain d where d: "global_df st = Some d" "objs (api_mem st) d = t"
    by (auto simp: api_table_def)
  obtain a0 h0 where c: "copy d (api_mem st) = (a0, h0)" by (cases "copy d (api_mem st)")
  obtain a1 h1 where p: "protocol_filter (args_get (protocol ps) []) a0 h0 = (a1, h1)"
    by (cases "protocol_filter (args_get (protocol ps) []) a0 h0")
  obtain r2 h2 where s: "contains_filter l ''Source IP'' Source_IP (args_get (source_ip ps) []) a1 h1 = (r2, h2)"
    by (cases "contains_filter l ''Source IP'' Source_IP (args_get (source_ip ps) []) a1 h1")
  show ?thesis
  proof (cases r2)
    case (Inl e)
    then show ?thesis
      using assms(2) d c p s by (simp add: filtered_def get_filtered_df_def args_get_def)
  next
    case (Inr a2)
    obtain r3 h3 where t: "contains_filter l ''Dest IP'' Dest_IP (args_get (dest_ip ps) []) a2 h2 = (r3, h3)"
      by (cases "contains_filter l ''Dest IP'' Dest_IP (args_get (dest_ip ps) []) a2 h2")
    show ?thesis
    proof (cases r3)
      case (Inl e)
      then show ?thesis
        using assms(2) d c p s t \<open>r2 = Inr a2\<close>
        by (simp add: filtered_def get_filtered_df_def args_get_def)
    next
      case (Inr a3)
      have "v = objs h3 a3"
        using assms(2) d c p s t \<open>r2 = Inr a2\<close> Inr
        by (simp add: filtered_def get_filtered_df_def args_get_def)
      moreover have "columns (objs h3 a3) = columns (objs h2 a2)"
        using contains_filter_columns t Inr by simp
      moreover have "columns (objs h2 a2) = columns (objs h1 a1)"
        using contains_filter_columns s \<open>r2 = Inr a2\<close> by simp
      moreover have "columns (objs h1 a1) = columns (objs h0 a0)"
        using protocol_filter_columns [OF p] .
      moreover have "objs h0 a0 = t"
        using copy_content [OF c] d(2) by simp
      ultimately show ?thesis by simp
    qed
  qed
qed

lemma handle_filtered_error:
  assumes "filtered l ps st = Inl e"
  shows "fst (handle l (ep, ps) st) = Unhandled e"
  using assms
  by (cases ep)
     (simp_all add: filtered_def get_stats_def get_data_def get_protocol_plot_data_def
        get_top_ips_plot_data_def split: prod.splits sum.splits)

section \<open>Facts about the baseline table\<close>

lemma keeps_below_refl: "n \<le> fresh h \<Longrightarrow> keeps_below n h h"
  by (simp add: keeps_below_def)

lemma keeps_below_trans:
  "keeps_below n h h1 \<Longrightarrow> keeps_below n h1 h2 \<Longrightarrow> keeps_below n h h2"
  by (simp add: keeps_below_def)

lemma new_obj_keeps:
  assumes "n \<le> fresh h" and "new_obj f h = (a, h1)"
  shows "keeps_below n h h1 \<and> n \<le> a"
  using assms by (auto simp: new_obj_def keeps_below_def)

lemma copy_keeps:
  assumes "n \<le> fresh h" and "copy d h = (a, h1)"
  shows "keeps_below n h h1 \<and> n \<le> a"
  using assms unfolding copy_def by (rule new_obj_keeps)

lemma select_keeps:
  assumes "n \<le> fresh h" and "select m a0 h = (a, h1)"
  shows "keeps_below n h h1 \<and> n \<le> a"
  using assms unfolding select_def by (rule new_obj_keeps)

lemma df_head_keeps:
  assumes "n \<le> fresh h" and "df_head k a0 h = (a, h1)"
  shows "keeps_below n h h1 \<and> n \<le> a"
  using assms unfolding df_head_def by (rule new_obj_keeps)

lemma protocol_filter_keeps:
  assumes "n \<le> fresh h" and "n \<le> a" and "protocol_filter p a h = (a1, h1)"
  shows "keeps_below n h h1 \<and> n \<le> a1"
proof (cases "p \<noteq> [] \<and> p \<noteq> ''All''")
  case True
  then have "select (\<lambda>r. Protocol r = Some p) a h = (a1, h1)"
    using assms(3) by (simp add: protocol_filter_def)
  then show ?thesis using assms(1) by (rule select_keeps [rotated])
next
  case False
  then show ?thesis
    using assms by (auto simp: protocol_filter_def keeps_below_refl)
qed

lemma contains_filter_keeps:
  assumes "n \<le> fresh h" and "n \<le> a" and "contains_filter l nm c pat a h = (r, h1)"
  shows "keeps_below n h h1 \<and> (\<forall>a1. r = Inr a1 \<longrightarrow> n \<le> a1)"
  using assms contains_filter_cases [of l nm c pat a h]
  by (auto simp: new_obj_def keeps_below_def)

lemma sort_values_inplace_keeps:
  assumes "n \<le> fresh h" and "n \<le> a" and "sort_values_inplace l col asc a h = Inr h1"
  shows "keeps_below n h h1"
  using assms
  by (auto simp: sort_values_inplace_def keeps_below_def split: sum.splits)

lemma get_filtered_df_keeps:
  assumes "n \<le> fresh (api_mem st)" and "get_filtered_df l ps st = (r, st1)"
  shows "global_df st1 = global_df st \<and> keeps_below n (api_mem st) (api_mem st1)
         \<and> (\<forall>a. r = Inr a \<longrightarrow> n \<le> a)"
proof (cases "global_df st")
  case None
  obtain a h where n: "new_obj DataFrame (api_mem st) = (a, h)"
    by (cases "new_obj DataFrame (api_mem st)")
  then have "r = Inr a" "st1 = st\<lparr>api_mem := h\<rparr>"
    using assms(2) None by (simp_all add: get_filtered_df_def)
  then show ?thesis
    using new_obj_keeps [OF assms(1) n] by simp
next
  case (Some d)
  obtain a0 h0 where c: "copy d (api_mem st) = (a0, h0)" by (cases "copy d (api_mem st)")
  obtain a1 h1 where p: "protocol_filter (args_get (protocol ps) []) a0 h0 = (a1, h1)"
    by (cases "protocol_filter (args_get (protocol ps) []) a0 h0")
  obtain r2 h2 where s: "contains_filter l ''Source IP'' Source_IP (args_get (source_ip ps) []) a1 h1 = (r2, h2)"
    by (cases "contains_filter l ''Source IP'' Source_IP (args_get (source_ip ps) []) a1 h1")
  have k0: "keeps_below n (api_mem st) h0" "n \<le> a0"
    using copy_keeps [OF assms(1) c] by simp_all
  then have f0: "n \<le> fresh h0" by (simp add: keeps_below_def)
  have k1: "keeps_below n h0 h1" "n \<le> a1"
    using protocol_filter_keeps [OF f0 k0(2) p] by simp_all
  then have f1: "n \<le> fresh h1" by (simp add: keeps_below_def)
  have k2: "keeps_below n h1 h2" "\<forall>a. r2 = Inr a \<longrightarrow> n \<le> a"
    using contains_filter_keeps [OF f1 k1(2) s] by simp_all
  then have f2: "n \<le> fresh h2" by (simp add: keeps_below_def)
  have k02: "keeps_below n (api_mem st) h2"
    using k0(1) k1(1) k2(1) by (blast intro: keeps_below_trans)
  show ?thesis
  proof (cases r2)
    case (Inl e)
    then have "r = Inl e" "st1 = st\<lparr>api_mem := h2\<rparr>"
      using assms(2) Some c p s by (simp_all add: get_filtered_df_def)
    then show ?thesis using k02 by simp
  next
    case (Inr a2)
    obtain r3 h3 where t: "contains_filter l ''Dest IP'' Dest_IP (args_get (dest_ip ps) []) a2 h2 = (r3, h3)"
      by (cases "contains_filter l ''Dest IP'' Dest_IP (args_get (dest_ip ps) []) a2 h2")
    have a2: "n \<le> a2" using k2(2) Inr by simp
    have k3: "keeps_below n h2 h3" "\<forall>a. r3 = Inr a \<longrightarrow> n \<le> a"
      using contains_filter_keeps [OF f2 a2 t] by simp_all
    then have f3: "n \<le> fresh h3" by (simp add: keeps_below_def)
    have k03: "keeps_below n (api_mem st) h3"
      using k02 k3(1) by (rule keeps_below_trans)
    show ?thesis
    proof (cases r3)
      case (Inl e)
      then have "r = Inl e" "st1 = st\<lparr>api_mem := h3\<rparr>"
        using assms(2) Some c p s t \<open>r2 = Inr a2\<close> by (simp_all add: get_filtered_df_def)
      then show ?thesis using k03 by simp
    next
      case (Inr a3)
      have a3: "n \<le> a3" using k3(2) Inr by simp
      show ?thesis
      proof (cases "args_get (sort_by ps) [] \<noteq> []")
        case False
        then have "r = Inr a3" "st1 = st\<lparr>api_mem := h3\<rparr>"
          using assms(2) Some c p s t \<open>r2 = Inr a2\<close> Inr by (simp_all add: get_filtered_df_def)
        then show ?thesis using k03 a3 by simp
      next
        case True
        show ?thesis
        proof (cases "sort_values_inplace l (args_get (sort_by ps) [])
                        (args_get (ascending ps) ''True'' = ''True'') a3 h3")
          case (Inl e)
          then have "r = Inl e" "st1 = st\<lparr>api_mem := h3\<rparr>"
            using assms(2) Some c p s t \<open>r2 = Inr a2\<close> \<open>r3 = Inr a3\<close> True
            by (simp_all add: get_filtered_df_def)
          then show ?thesis using k03 by simp
        next
          case (Inr h4)
          then have e: "r = Inr a3" "st1 = st\<lparr>api_mem := h4\<rparr>"
            using assms(2) Some c p s t \<open>r2 = Inr a2\<close> \<open>r3 = Inr a3\<close> True
            by (simp_all add: get_filtered_df_def)
          have "keeps_below n h3 h4"
            using sort_values_inplace_keeps [OF f3 a3 Inr] .
          then have "keeps_below n (api_mem st) h4"
            using k03 by (blast intro: keeps_below_trans)
          then show ?thesis using e a3 by simp
        qed
      qed
    qed
  qed
qed

lemma handle_keeps:
  assumes "n \<le> fresh (api_mem st)" and "handle l (ep, ps) st = (r, st1)"
  shows "global_df st1 = global_df st \<and> keeps_below n (api_mem st) (api_mem st1)"
proof -
  obtain r0 st0 where g: "get_filtered_df l ps st = (r0, st0)"
    by (cases "get_filtered_df l ps st")
  have k: "global_df st0 = global_df st" "keeps_below n (api_mem st) (api_mem st0)"
    using get_filtered_df_keeps [OF assms(1) g] by simp_all
  show ?thesis
  proof (cases ep)
    case Api_stats
    then have "st1 = st0"
      using assms(2) g by (auto simp: get_stats_def split: sum.splits if_splits)
    then show ?thesis using k by simp
  next
    case Api_data
    show ?thesis
    proof (cases r0)
      case (Inl e)
      then have "st1 = st0" using assms(2) g Api_data by (simp add: get_data_def)
      then show ?thesis using k by simp
    next
      case (Inr a)
      obtain b h where hd: "df_head 200 a (api_mem st0) = (b, h)"
        by (cases "df_head 200 a (api_mem st0)")
      have "n \<le> fresh (api_mem st0)" using k(2) by (simp add: keeps_below_def)
      then have "keeps_below n (api_mem st0) h"
        using df_head_keeps [OF _ hd] by simp
      then have "keeps_below n (api_mem st) h"
        using k(2) by (blast intro: keeps_below_trans)
      moreover have "st1 = st0\<lparr>api_mem := h\<rparr>"
        using assms(2) g Api_data Inr hd by (auto simp: get_data_def split: if_splits)
      ultimately show ?thesis using k(1) by simp
    qed
  next
    case Api_plot_protocol
    then have "st1 = st0"
      using assms(2) g by (auto simp: get_protocol_plot_data_def split: sum.splits if_splits)
    then show ?thesis using k by simp
  next
    case Api_plot_top_ips
    then have "st1 = st0"
      using assms(2) g by (auto simp: get_top_ips_plot_data_def split: sum.splits if_splits)
    then show ?thesis using k by simp
  qed
qed

lemma serve_keeps:
  assumes "n \<le> fresh (api_mem st)"
  shows "global_df (snd (serve l rqs st)) = global_df st
         \<and> keeps_below n (api_mem st) (api_mem (snd (serve l rqs st)))"
  using assms
proof (induction rqs arbitrary: st)
  case Nil
  then show ?case by (simp add: keeps_below_refl)
next
  case (Cons rq rqs)
  obtain ep ps where rq: "rq = (ep, ps)" by (cases rq)
  obtain r st1 where h: "handle l (ep, ps) st = (r, st1)" by (cases "handle l (ep, ps) st")
  have k: "global_df st1 = global_df st" "keeps_below n (api_mem st) (api_mem st1)"
    using handle_keeps [OF Cons.prems h] by simp_all
  then have "n \<le> fresh (api_mem st1)" by (simp add: keeps_below_def)
  then have "global_df (snd (serve l rqs st1)) = global_df st1
         \<and> keeps_below n (api_mem st1) (api_mem (snd (serve l rqs st1)))"
    by (rule Cons.IH)
  moreover have "snd (serve l (rq # rqs) st) = snd (serve l rqs st1)"
    using rq h by (simp add: Let_def split: prod.splits)
  ultimately show ?case using k by (auto intro: keeps_below_trans)
qed

lemma api_ok_serve:
  assumes "api_ok st"
  shows "api_ok (snd (serve l rqs st)) \<and> global_df (snd (serve l rqs st)) = global_df st
         \<and> api_table (snd (serve l rqs st)) = api_table st"
proof (cases "global_df st")
  case None
  then show ?thesis
    using serve_keeps [of 0 st l rqs] by (simp add: api_ok_def api_table_def)
next
  case (Some d)
  then have d: "Suc d \<le> fresh (api_mem st)" using assms by (simp add: api_ok_def)
  show ?thesis
    using serve_keeps [OF d, of l rqs] Some by (auto simp: api_ok_def api_table_def keeps_below_def)
qed

lemma api_ok_load: "api_ok (snd (api_load_data csv api_start))"
  by (cases csv) (simp_all add: api_load_data_def api_ok_def api_start_def new_obj_def)


lemma populate_filter_options_keeps [simp]:
  "mem (populate_filter_options g) = mem g" "df (populate_filter_options g) = df g"
  "current_df (populate_filter_options g) = current_df g"
  by (simp_all add: populate_filter_options_def Let_def split: option.splits)

lemma apply_filter_keeps:
  assumes "df g = Some d" and "d < fresh (mem g)"
  shows "df (apply_filter l g) = Some d
         \<and> keeps_below (fresh (mem g)) (mem g) (mem (apply_filter l g))
         \<and> (current_df (apply_filter l g) = current_df g
            \<or> (\<exists>a. current_df (apply_filter l g) = Some a \<and> fresh (mem g) \<le> a))"
proof -
  let ?n = "fresh (mem g)"
  obtain a0 h0 where c: "copy d (mem g) = (a0, h0)" by (cases "copy d (mem g)")
  obtain a1 h1 where p: "protocol_filter (protocol_filter_var g) a0 h0 = (a1, h1)"
    by (cases "protocol_filter (protocol_filter_var g) a0 h0")
  obtain r2 h2 where s: "contains_filter l ''Source IP'' Source_IP (strip (source_ip_filter_var g)) a1 h1 = (r2, h2)"
    by (cases "contains_filter l ''Source IP'' Source_IP (strip (source_ip_filter_var g)) a1 h1")
  have k0: "keeps_below ?n (mem g) h0" "?n \<le> a0"
    using copy_keeps [OF _ c, of ?n] by simp_all
  then have f0: "?n \<le> fresh h0" by (simp add: keeps_below_def)
  have k1: "keeps_below ?n h0 h1" "?n \<le> a1"
    using protocol_filter_keeps [OF f0 k0(2) p] by simp_all
  then have f1: "?n \<le> fresh h1" by (simp add: keeps_below_def)
  have k2: "keeps_below ?n h1 h2" "\<forall>a. r2 = Inr a \<longrightarrow> ?n \<le> a"
    using contains_filter_keeps [OF f1 k1(2) s] by simp_all
  then have f2: "?n \<le> fresh h2" by (simp add: keeps_below_def)
  have k02: "keeps_below ?n (mem g) h2"
    using k0(1) k1(1) k2(1) by (blast intro: keeps_below_trans)
  show ?thesis
  proof (cases r2)
    case (Inl e)
    then have "apply_filter l g = g\<lparr>mem := h2, status_label := Error_applying_filter e\<rparr>"
      using assms(1) c p s by (simp add: apply_filter_def)
    then show ?thesis using k02 assms(1) by simp
  next
    case (Inr a2)
    obtain r3 h3 where t: "contains_filter l ''Dest IP'' Dest_IP (strip (dest_ip_filter_var g)) a2 h2 = (r3, h3)"
      by (cases "contains_filter l ''Dest IP'' Dest_IP (strip (dest_ip_filter_var g)) a2 h2")
    have a2: "?n \<le> a2" using k2(2) Inr by simp
    have k3: "keeps_below ?n h2 h3" "\<forall>a. r3 = Inr a \<longrightarrow> ?n \<le> a"
      using contains_filter_keeps [OF f2 a2 t] by simp_all
    have k03: "keeps_below ?n (mem g) h3"
      using k02 k3(1) by (rule keeps_below_trans)
    show ?thesis
    proof (cases r3)
      case (Inl e)
      then have "apply_filter l g = g\<lparr>mem := h3, status_label := Error_applying_filter e\<rparr>"
        using assms(1) c p s t \<open>r2 = Inr a2\<close> by (simp add: apply_filter_def)
      then show ?thesis using k03 assms(1) by simp
    next
      case (Inr a3)
      have a3: "?n \<le> a3" using k3(2) Inr by simp
      have "mem (apply_filter l g) = h3 \<and> df (apply_filter l g) = df g
            \<and> current_df (apply_filter l g) = Some a3"
        using assms(1) c p s t \<open>r2 = Inr a2\<close> Inr by (simp add: apply_filter_def Let_def)
      then show ?thesis using k03 a3 assms(1) by simp
    qed
  qed
qed

lemma apply_filter_ok:
  assumes "gui_ok g"
  shows "gui_ok (apply_filter l g) \<and> df (apply_filter l g) = df g
         \<and> gui_table (apply_filter l g) = gui_table g"
proof (cases "df g")
  case None
  then show ?thesis by (simp add: apply_filter_def gui_ok_def gui_table_def)
next
  case (Some d)
  then have d: "d < fresh (mem g)" "current_df g \<noteq> Some d"
    using assms by (simp_all add: gui_ok_def)
  show ?thesis
    using apply_filter_keeps [OF Some d(1), of l] d Some
    by (auto simp: gui_ok_def gui_table_def keeps_below_def)
qed

lemma sort_treeview_ok:
  assumes "gui_ok g"
  shows "gui_ok (sort_treeview l col reverse g) \<and> df (sort_treeview l col reverse g) = df g
         \<and> gui_table (sort_treeview l col reverse g) = gui_table g"
  using assms
  by (auto simp: sort_treeview_def sort_values_inplace_def gui_ok_def gui_table_def Let_def
           split: option.splits sum.splits)

lemma load_data_ok: "gui_ok g \<Longrightarrow> gui_ok (load_data choice g)"
  by (cases choice)
     (auto simp: load_data_def gui_ok_def copy_def new_obj_def clear_dashboard_def Let_def
           split: option.splits)

lemma step_ok: "gui_ok g \<Longrightarrow> gui_ok (step l ev g)"
proof (cases ev)
  case (Load_data choice)
  assume "gui_ok g"
  then show ?thesis using Load_data by (simp add: load_data_ok)
next
  case (Select_protocol p)
  assume "gui_ok g"
  then have "gui_ok (g\<lparr>protocol_filter_var := p\<rparr>)"
    by (simp add: gui_ok_def split: option.splits)
  then show ?thesis using Select_protocol by (simp add: apply_filter_ok)
next
  case (Type_source_ip s)
  assume "gui_ok g"
  then show ?thesis using Type_source_ip by (simp add: gui_ok_def split: option.splits)
next
  case (Type_dest_ip s)
  assume "gui_ok g"
  then show ?thesis using Type_dest_ip by (simp add: gui_ok_def split: option.splits)
next
  case Apply_filter
  assume "gui_ok g"
  then show ?thesis using Apply_filter by (simp add: apply_filter_ok)
next
  case Clear_filters
  assume "gui_ok g"
  then have "gui_ok (g\<lparr>protocol_filter_var := ''All'', source_ip_filter_var := [],
                       dest_ip_filter_var := [], sort_state := Map.empty\<rparr>)"
    by (simp add: gui_ok_def split: option.splits)
  then show ?thesis using Clear_filters by (simp add: clear_filters_def apply_filter_ok)
next
  case (Sort_treeview col reverse)
  assume "gui_ok g"
  then show ?thesis using Sort_treeview by (simp add: sort_treeview_ok)
qed

lemma step_keeps_table:
  assumes "gui_ok g" and "\<not> is_load ev"
  shows "df (step l ev g) = df g \<and> gui_table (step l ev g) = gui_table g"
proof (cases ev)
  case (Load_data choice)
  then show ?thesis using assms(2) by simp
next
  case (Select_protocol p)
  let ?g = "g\<lparr>protocol_filter_var := p\<rparr>"
  have ok: "gui_ok ?g"
    using assms(1) by (simp add: gui_ok_def split: option.splits)
  have same: "df ?g = df g" "gui_table ?g = gui_table g"
    by (simp_all add: gui_table_def)
  have "df (apply_filter l ?g) = df ?g" and "gui_table (apply_filter l ?g) = gui_table ?g"
    using apply_filter_ok [OF ok, of l] by simp_all
  then show ?thesis
    using Select_protocol same by simp
next
  case (Type_source_ip s)
  then show ?thesis by (simp add: gui_table_def)
next
  case (Type_dest_ip s)
  then show ?thesis by (simp add: gui_table_def)
next
  case Apply_filter
  then show ?thesis using apply_filter_ok [OF assms(1), of l] by simp
next
  case Clear_filters
  let ?g = "g\<lparr>protocol_filter_var := ''All'', source_ip_filter_var := [],
                       dest_ip_filter_var := [], sort_state := Map.empty\<rparr>"
  have ok: "gui_ok ?g"
    using assms(1) by (simp add: gui_ok_def split: option.splits)
  have same: "df ?g = df g" "gui_table ?g = gui_table g"
    by (simp_all add: gui_table_def)
  have "df (apply_filter l ?g) = df ?g" and "gui_table (apply_filter l ?g) = gui_table ?g"
    using apply_filter_ok [OF ok, of l] by simp_all
  then show ?thesis
    using Clear_filters same by (simp add: clear_filters_def)
next
  case (Sort_treeview col reverse)
  then show ?thesis using sort_treeview_ok [OF assms(1), of l col reverse] by simp
qed

lemma run_ok: "gui_ok g \<Longrightarrow> gui_ok (run l evs g)"
  by (induction evs arbitrary: g) (simp_all add: step_ok)

lemma run_keeps_table:
  assumes "gui_ok g" and "\<forall>ev \<in> set evs. \<not> is_load ev"
  shows "df (run l evs g) = df g \<and> gui_table (run l evs g) = gui_table g"
  using assms
proof (induction evs arbitrary: g)
  case Nil
  then show ?case by simp
next
  case (Cons ev evs)
  have "df (run l evs (step l ev g)) = df (step l ev g)
        \<and> gui_table (run l evs (step l ev g)) = gui_table (step l ev g)"
    using Cons.prems by (intro Cons.IH) (simp_all add: step_ok)
  then show ?case using step_keeps_table [of g ev l] Cons.prems by simp
qed

lemma gui_ok_start: "gui_ok gui_start"
  by (simp add: gui_ok_def gui_start_def)


text \<open>
  When the filters of a request are accepted and the sort column is not a column of the
  table, \<^verbatim>\<open>get_filtered_df\<close> raises KeyError and no endpoint catches it.
\<close>

lemma api_unknown_column_raises:
  assumes "api_table st = Some t" and "col \<notin> set (columns t)"
    and "sort_by ps = Some col" and "col \<noteq> []"
    and "filtered l (ps\<lparr>sort_by := None\<rparr>) st = Inr v"
  shows "filtered l ps st = Inl (KeyError col)"
    and "fst (handle l (ep, ps) st) = Unhandled (KeyError col)"
proof -
  from assms(1) obtain d where d: "global_df st = Some d"
    by (auto simp: api_table_def)
  have "columns v = columns t"
    by (rule filtered_columns [OF assms(1,5)])
  then have "sort_values l col (args_get (ascending ps) ''True'' = ''True'') v = Inl (KeyError col)"
    using assms(2) by (simp add: sort_values_unknown)
  then show api: "filtered l ps st = Inl (KeyError col)"
    using filtered_sort [OF d assms(3,4), of l] assms(5) by simp
  then show "fst (handle l (ep, ps) st) = Unhandled (KeyError col)"
    by (rule handle_filtered_error)
qed

section \<open>Facts about the key metrics\<close>

lemma top_value_Nil [simp]: "top_value [] = Inr ''N/A''"
  by (simp add: top_value_def)

lemma int64_0 [simp]: "int64 0 = 0"
  by (simp add: int64_def)

lemma update_stats_metrics_empty:
  assumes "rows f = []"
    and "set [''Length'', ''Protocol'', ''Source IP'', ''Dest IP'', ''Timestamp'']
           \<subseteq> set (columns f)"
  shows "update_stats_metrics f =
           Inr \<lparr>total_packets = 0, total_data_bytes = 0, total_data_mb = 0, avg_packet_size = 0,
                top_protocol = ''N/A'', top_source_ip = ''N/A'', top_dest_ip = ''N/A'',
                unique_protocols = 0, time_range = None\<rparr>"
  using assms
  by (simp add: update_stats_metrics_def series_def and_then_def unique_count_def
        time_range_of_def)

lemma update_stats_metrics_no_column:
  "''Length'' \<notin> set (columns f) \<Longrightarrow> update_stats_metrics f = Inl (KeyError ''Length'')"
  by (simp add: update_stats_metrics_def series_def and_then_def)

lemma get_stats_filtered:
  "fst (get_stats l ps st) =
     (case filtered l ps st of
        Inl e \<Rightarrow> Unhandled e
      | Inr v \<Rightarrow> if df_empty v then Json_error ''No data'' 404
                 else (case get_stats_metrics v of Inl e \<Rightarrow> Unhandled e | Inr s \<Rightarrow> Json_stats s))"
  by (simp add: get_stats_def filtered_def split: prod.splits sum.splits)

section \<open>Facts about the patterns\<close>

text \<open>
  A filter text without a dot and without any other special character is searched as the
  specification's substring test does.
\<close>

lemma match_here_literal:
  "CHR ''.'' \<notin> set pat \<Longrightarrow> match_here (parse_plain pat) s = starts_with pat s"
  by (induction pat s rule: starts_with.induct) (auto simp: parse_plain_def)

lemma search_literal:
  "CHR ''.'' \<notin> set pat \<Longrightarrow> search (parse_plain pat) s = spec_contains pat s"
  by (induction s) (simp_all add: match_here_literal)

lemma str_contains_literal:
  assumes "plain_pattern pat" and "CHR ''.'' \<notin> set pat"
  shows "str_contains l pat
           = Inr (\<lambda>x. case x of None \<Rightarrow> False | Some s \<Rightarrow> spec_contains pat s)"
proof -
  have "search (parse_plain pat) = spec_contains pat"
    using assms(2) by (auto simp: search_literal)
  then show ?thesis
    using assms(1) by (simp add: str_contains_def)
qed


section \<open>The filters\<close>

text \<open>
  C1. The claim: the filtering operation of both programs returns exactly the records
  that match the protocol and contain the given source and destination substrings,
  letter case ignored. Both programs hand the filter text to \<^verbatim>\<open>str.contains\<close> as a regular
  expression, so the dot of an address is a wildcard: on a table whose only record has
  the source address 10.0.0.121, the source filter \<^verbatim>\<open>1.1\<close> keeps the record in the
  dashboard and in the API, although the address does not contain the text \<^verbatim>\<open>1.1\<close>.
\<close>

theorem C1_dot_is_a_wildcard:
  "gui_view (apply_filter reference_lib ((gui_with [rec4])\<lparr>source_ip_filter_var := ''1.1''\<rparr>))
     = Some (read_csv [rec4])
   \<and> filtered reference_lib (no_params\<lparr>source_ip := Some ''1.1''\<rparr>) (api_with [rec4])
     = Inr (read_csv [rec4])
   \<and> Source_IP rec4 = Some ''10.0.0.121''
   \<and> \<not> spec_contains ''1.1'' ''10.0.0.121''"
  by code_simp

theorem C1_dot_is_a_wildcard_witness:
  "filtered reference_lib (no_params\<lparr>source_ip := Some ''1.1''\<rparr>) (api_with [rec4])
     = Inr (read_csv [rec4])"
  using C1_dot_is_a_wildcard by simp

text \<open>
  C9. The claim: for the same table and the same filter values the dashboard and the API
  produce the same view, also when a substring has leading or trailing whitespace. The
  dashboard strips the text of its entry fields, the API uses the query parameter as it
  comes: with the source filter \<^verbatim>\<open>" 10 "\<close> the dashboard keeps the record with the source
  address 10.0.0.121 and the API keeps nothing.
\<close>

theorem C9_only_the_dashboard_strips:
  "gui_view (apply_filter reference_lib ((gui_with [rec4])\<lparr>source_ip_filter_var := '' 10 ''\<rparr>))
     = Some (read_csv [rec4])
   \<and> filtered reference_lib (no_params\<lparr>source_ip := Some '' 10 ''\<rparr>) (api_with [rec4])
     = Inr (read_csv [])"
  by code_simp

theorem C9_only_the_dashboard_strips_witness:
  "filtered reference_lib (no_params\<lparr>source_ip := Some '' 10 ''\<rparr>) (api_with [rec4])
     \<noteq> Inr (read_csv [rec4])"
  using C9_only_the_dashboard_strips by (simp add: read_csv_def)


text \<open>
  C6. With no constraint set (no protocol or the protocol \<^verbatim>\<open>"All"\<close>, empty source and
  destination texts) the filtering operation of the dashboard and that of the API (asked
  for no sort) return a view equal to the table: the same columns and the same records
  in the same order.
\<close>

theorem C6_no_constraint_gives_the_table:
  assumes "gui_table g = Some t"
    and "protocol_filter_var g = [] \<or> protocol_filter_var g = ''All''"
    and "source_ip_filter_var g = []" and "dest_ip_filter_var g = []"
    and "api_table st = Some t"
    and "protocol ps = None \<or> protocol ps = Some [] \<or> protocol ps = Some ''All''"
    and "source_ip ps = None \<or> source_ip ps = Some []"
    and "dest_ip ps = None \<or> dest_ip ps = Some []"
    and "sort_by ps = None \<or> sort_by ps = Some []"
  shows "gui_view (apply_filter l g) = Some t \<and> filtered l ps st = Inr t"
proof
  from assms(1) obtain d where d: "df g = Some d" "objs (mem g) d = t"
    by (auto simp: gui_table_def)
  show "gui_view (apply_filter l g) = Some t"
    using assms(2-4) d
    by (auto simp: apply_filter_def gui_view_def copy_def new_obj_def Let_def)
next
  from assms(5) obtain d where d: "global_df st = Some d" "objs (api_mem st) d = t"
    by (auto simp: api_table_def)
  show "filtered l ps st = Inr t"
    using assms(6-9) d
    by (auto simp: filtered_def get_filtered_df_def args_get_def copy_def new_obj_def Let_def)
qed

theorem C6_no_constraint_gives_the_table_witness:
  "gui_view (apply_filter reference_lib (gui_with [rec1, rec2, rec3]))
     = Some (read_csv [rec1, rec2, rec3])
   \<and> filtered reference_lib no_params (api_with [rec1, rec2, rec3])
     = Inr (read_csv [rec1, rec2, rec3])"
proof -
  have g: "gui_table (gui_with [rec1, rec2, rec3]) = Some (read_csv [rec1, rec2, rec3])"
    by code_simp
  have p: "protocol_filter_var (gui_with [rec1, rec2, rec3]) = []
           \<or> protocol_filter_var (gui_with [rec1, rec2, rec3]) = ''All''"
    by code_simp
  have s: "source_ip_filter_var (gui_with [rec1, rec2, rec3]) = []"
    by code_simp
  have d: "dest_ip_filter_var (gui_with [rec1, rec2, rec3]) = []"
    by code_simp
  have a: "api_table (api_with [rec1, rec2, rec3]) = Some (read_csv [rec1, rec2, rec3])"
    by code_simp
  show ?thesis
    by (rule C6_no_constraint_gives_the_table [OF g p s d a]) (simp_all add: no_params_def)
qed


section \<open>Sorting\<close>

text \<open>
  C3, as amended. The claim says that on a column of pairwise distinct values a sort in
  ascending order followed by a sort in descending order restores the original order.
  What the two sorts give is the view in descending order of the column (a missing value
  last): the same columns and records, and the original order exactly when the view was
  in descending order to begin with. Stated for two clicks on a heading of the
  dashboard, for any kernel that sorts.
\<close>

theorem C3_round_trip_is_descending:
  assumes "argsort_sorts (argsort l)"
    and "gui_view g = Some f" and "\<not> df_empty f" and "col \<in> set (columns f)"
    and "distinct (map (cell col) (rows f))"
  shows "\<exists>f2. gui_view (sort_treeview l col True (sort_treeview l col False g)) = Some f2
           \<and> columns f2 = columns f \<and> mset (rows f2) = mset (rows f)
           \<and> ordered col False (rows f2)
           \<and> (f2 = f \<longleftrightarrow> ordered col False (rows f))"
proof -
  from assms(2) obtain a where a: "current_df g = Some a" "objs (mem g) a = f"
    by (auto simp: gui_view_def)
  obtain f1 where f1: "sort_values l col True f = Inr f1" "columns f1 = columns f"
    "mset (rows f1) = mset (rows f)" "ordered col True (rows f1)" "f\<lparr>rows := rows f1\<rparr> = f1"
    by (rule sorted_frame [OF assms(1,4)])
  let ?g1 = "sort_treeview l col False g"
  have v1: "gui_view ?g1 = Some f1"
    using sort_treeview_sorted [of g a l col False f1] a assms(3) f1(1) by simp
  then obtain a1 where a1: "current_df ?g1 = Some a1" "objs (mem ?g1) a1 = f1"
    by (auto simp: gui_view_def)
  have ne1: "\<not> df_empty f1"
    using df_empty_perm [OF f1(2,3)] assms(3) by simp
  have c1: "col \<in> set (columns f1)"
    using assms(4) f1(2) by simp
  obtain f2 where f2: "sort_values l col False f1 = Inr f2" "columns f2 = columns f1"
    "mset (rows f2) = mset (rows f1)" "ordered col False (rows f2)" "f1\<lparr>rows := rows f2\<rparr> = f2"
    by (rule sorted_frame [OF assms(1) c1])
  have v2: "gui_view (sort_treeview l col True ?g1) = Some f2"
    using sort_treeview_sorted [of ?g1 a1 l col True f2] a1 ne1 f2(1) by simp
  have "f\<lparr>rows := rows f1\<rparr>\<lparr>rows := rows f2\<rparr> = f2"
    by (simp only: f1(5) f2(5))
  then have shape: "f\<lparr>rows := rows f2\<rparr> = f2"
    by simp
  have "f2 = f" if o: "ordered col False (rows f)"
  proof -
    have m: "mset (rows f) = mset (rows f2)"
      using f1(3) f2(3) by simp
    have "rows f = rows f2"
      by (rule ordered_unique [OF o f2(4) m assms(5)])
    then have "f\<lparr>rows := rows f\<rparr> = f2"
      using shape by simp
    then show ?thesis by simp
  qed
  then have "f2 = f \<longleftrightarrow> ordered col False (rows f)"
    using f2(4) by auto
  then show ?thesis
    using v2 f1(2,3) f2(2,3) f2(4) by simp
qed


text \<open>
  The table of the specification's scenario, lengths 100, 200, 50: after the two sorts
  the lengths read 200, 100, 50.
\<close>

theorem C3_round_trip_counterexample:
  "gui_view (gui_with [rec1, rec2, rec3]) = Some (read_csv [rec1, rec2, rec3])
   \<and> distinct (map Length [rec1, rec2, rec3])
   \<and> gui_view (sort_treeview reference_lib ''Length'' True
                 (sort_treeview reference_lib ''Length'' False (gui_with [rec1, rec2, rec3])))
       = Some (read_csv [rec2, rec1, rec3])
   \<and> read_csv [rec2, rec1, rec3] \<noteq> read_csv [rec1, rec2, rec3]"
  by code_simp


theorem C3_round_trip_is_descending_witness:
  "\<exists>f2. gui_view (sort_treeview reference_lib ''Length'' True
                    (sort_treeview reference_lib ''Length'' False (gui_with [rec1, rec2, rec3])))
           = Some f2
         \<and> columns f2 = columns (read_csv [rec1, rec2, rec3])
         \<and> mset (rows f2) = mset (rows (read_csv [rec1, rec2, rec3]))
         \<and> ordered ''Length'' False (rows f2)
         \<and> (f2 = read_csv [rec1, rec2, rec3]
              \<longleftrightarrow> ordered ''Length'' False (rows (read_csv [rec1, rec2, rec3])))"
proof (rule C3_round_trip_is_descending [OF reference_lib_sorts])
  show "gui_view (gui_with [rec1, rec2, rec3]) = Some (read_csv [rec1, rec2, rec3])"
    by code_simp
  show "\<not> df_empty (read_csv [rec1, rec2, rec3])"
    by code_simp
  show "''Length'' \<in> set (columns (read_csv [rec1, rec2, rec3]))"
    by code_simp
  show "distinct (map (cell ''Length'') (rows (read_csv [rec1, rec2, rec3])))"
    by code_simp
qed



text \<open>
  C10. In the API, for a request that names a sort column, \<^verbatim>\<open>get_filtered_df\<close> sorts the
  filtered rows in ascending order when the parameter \<^verbatim>\<open>ascending\<close> is absent or is the
  string \<^verbatim>\<open>True\<close>, and in descending order for any other value: the frame it returns is
  \<^verbatim>\<open>sort_values\<close> of the unsorted answer with exactly that flag, and is ordered
  accordingly. A request with \<^verbatim>\<open>ascending=true\<close> is answered in descending order.
\<close>

theorem C10_ascending_is_the_literal_True:
  assumes "argsort_sorts (argsort l)"
    and "global_df st \<noteq> None" and "sort_by ps = Some col" and "col \<noteq> []"
    and "filtered l ps st = Inr f"
  shows "(\<exists>v. filtered l (ps\<lparr>sort_by := None\<rparr>) st = Inr v
            \<and> sort_values l col (ascending ps = None \<or> ascending ps = Some ''True'') v = Inr f)
       \<and> (ascending ps = None \<or> ascending ps = Some ''True'' \<longrightarrow> ordered col True (rows f))
       \<and> (ascending ps \<noteq> None \<and> ascending ps \<noteq> Some ''True'' \<longrightarrow> ordered col False (rows f))"
proof -
  from assms(2) obtain d where d: "global_df st = Some d" by auto
  let ?asc = "ascending ps = None \<or> ascending ps = Some ''True''"
  have eq: "filtered l ps st =
              (case filtered l (ps\<lparr>sort_by := None\<rparr>) st of
                 Inl e \<Rightarrow> Inl e | Inr v \<Rightarrow> sort_values l col ?asc v)"
    using filtered_sort [OF d assms(3,4), of l] by (simp only: ascending_flag)
  then obtain v where v: "filtered l (ps\<lparr>sort_by := None\<rparr>) st = Inr v"
    "sort_values l col ?asc v = Inr f"
    using assms(5) by (cases "filtered l (ps\<lparr>sort_by := None\<rparr>) st") simp_all
  have "ordered col ?asc (rows f)"
    by (rule sort_values_ordered [OF assms(1) v(2)])
  then have "?asc \<longrightarrow> ordered col True (rows f)"
    and "ascending ps \<noteq> None \<and> ascending ps \<noteq> Some ''True'' \<longrightarrow> ordered col False (rows f)"
    by auto
  then show ?thesis using v by blast
qed

theorem C10_ascending_is_the_literal_True_witness:
  "filtered reference_lib (no_params\<lparr>sort_by := Some ''Length'', ascending := Some ''true''\<rparr>)
       (api_with [rec1, rec2, rec3]) = Inr (read_csv [rec2, rec1, rec3])
   \<and> ordered ''Length'' False (rows (read_csv [rec2, rec1, rec3]))"
proof -
  let ?ps = "no_params\<lparr>sort_by := Some ''Length'', ascending := Some ''true''\<rparr>"
  have f: "filtered reference_lib ?ps (api_with [rec1, rec2, rec3]) = Inr (read_csv [rec2, rec1, rec3])"
    by code_simp
  have d: "global_df (api_with [rec1, rec2, rec3]) \<noteq> None"
    by code_simp
  have s: "sort_by ?ps = Some ''Length''" and a: "ascending ?ps = Some ''true''"
    by simp_all
  show ?thesis
    using C10_ascending_is_the_literal_True [OF reference_lib_sorts d s _ f] f a by simp
qed



text \<open>
  C5, as amended. The claim says that a sort request naming a column the table lacks is
  always reported. In the dashboard, \<^verbatim>\<open>_sort_treeview\<close> on a non-empty view catches the
  KeyError and reports it in the status line, the view and the rows of the table
  unchanged; on an empty or missing view it returns at once and changes nothing, the
  status line included, whatever the column.
\<close>

theorem C5_dashboard_reports_unknown_column:
  "(gui_view g = None \<or> (\<exists>v. gui_view g = Some v \<and> df_empty v)
      \<longrightarrow> sort_treeview l col reverse g = g)
   \<and> (gui_view g = Some f \<and> \<not> df_empty f \<and> col \<notin> set (columns f)
      \<longrightarrow> status_label (sort_treeview l col reverse g) = Error_sorting col (KeyError col)
        \<and> gui_view (sort_treeview l col reverse g) = Some f
        \<and> tree (sort_treeview l col reverse g) = tree g)"
proof (intro conjI impI)
  assume "gui_view g = None \<or> (\<exists>v. gui_view g = Some v \<and> df_empty v)"
  then show "sort_treeview l col reverse g = g"
    by (auto simp: gui_view_def sort_treeview_def split: option.splits)
next
  assume h: "gui_view g = Some f \<and> \<not> df_empty f \<and> col \<notin> set (columns f)"
  then obtain a where a: "current_df g = Some a" "objs (mem g) a = f"
    by (auto simp: gui_view_def)
  have "sort_values l col (\<not> reverse) f = Inl (KeyError col)"
    using h by (simp add: sort_values_unknown)
  then have e: "sort_treeview l col reverse g =
           g\<lparr>sort_state := [col \<mapsto> reverse], status_label := Error_sorting col (KeyError col)\<rparr>"
    using sort_treeview_failed [of g a l col reverse "KeyError col"] a h by simp
  show "status_label (sort_treeview l col reverse g) = Error_sorting col (KeyError col)"
    by (simp add: e)
  show "gui_view (sort_treeview l col reverse g) = Some f"
    using h by (simp add: e gui_view_def)
  show "tree (sort_treeview l col reverse g) = tree g"
    by (simp add: e)
qed

text \<open>
  On an empty view the dashboard returns from \<^verbatim>\<open>_sort_treeview\<close> at once, the status line
  still reading that the file was loaded; and the API lets the KeyError escape from the
  view function.
\<close>

theorem C5_unhandled_or_silent:
  "fst (handle reference_lib (Api_data, no_params\<lparr>sort_by := Some ''Size''\<rparr>)
          (api_with [rec1, rec2, rec3])) = Unhandled (KeyError ''Size'')
   \<and> gui_view (gui_with []) = Some (read_csv [])
   \<and> status_label (gui_with []) = Loaded 0
   \<and> status_label (sort_treeview reference_lib ''Size'' False (gui_with [])) = Loaded 0"
  by code_simp

theorem C5_dashboard_reports_unknown_column_witness:
  "status_label (sort_treeview reference_lib ''Size'' False (gui_with [rec1, rec2, rec3]))
       = Error_sorting ''Size'' (KeyError ''Size'')
   \<and> gui_view (sort_treeview reference_lib ''Size'' False (gui_with [rec1, rec2, rec3]))
       = Some (read_csv [rec1, rec2, rec3])
   \<and> tree (sort_treeview reference_lib ''Size'' False (gui_with [rec1, rec2, rec3]))
       = tree (gui_with [rec1, rec2, rec3])
   \<and> status_label (sort_treeview reference_lib ''Size'' False (gui_with []))
       = status_label (gui_with [])"
proof -
  have v: "gui_view (gui_with [rec1, rec2, rec3]) = Some (read_csv [rec1, rec2, rec3])"
    by code_simp
  have n: "\<not> df_empty (read_csv [rec1, rec2, rec3])"
    by code_simp
  have c: "''Size'' \<notin> set (columns (read_csv [rec1, rec2, rec3]))"
    by code_simp
  have e: "gui_view (gui_with []) = Some (read_csv []) \<and> df_empty (read_csv [])"
    by code_simp
  have "sort_treeview reference_lib ''Size'' False (gui_with []) = gui_with []"
    using C5_dashboard_reports_unknown_column
            [of "gui_with []" reference_lib "''Size''" False "read_csv []"] e
    by blast
  then have silent: "status_label (sort_treeview reference_lib ''Size'' False (gui_with []))
                       = status_label (gui_with [])"
    by (rule arg_cong)
  show ?thesis
    using C5_dashboard_reports_unknown_column
            [of "gui_with [rec1, rec2, rec3]" reference_lib "''Size''" False
                "read_csv [rec1, rec2, rec3]"] v n c silent
    by blast
qed

section \<open>Key metrics of an empty view\<close>

text \<open>
  C4, as amended. The claim says that in both programs the statistics of an empty view
  are the sentinel values (0 packets, 0 bytes, average 0, time range \<^verbatim>\<open>"N/A"\<close>). That is
  what \<^verbatim>\<open>_update_stats\<close> of the dashboard computes, without raising, on a view that has
  no row and has the columns it reads; \<^verbatim>\<open>update_dashboard\<close> does not call it on an empty
  view and sets every label to \<^verbatim>\<open>"N/A"\<close>. The API does not answer with statistics:
  on an empty view (no row, or no column) \<^verbatim>\<open>get_stats\<close> returns the body
  \<^verbatim>\<open>{"error": "No data"}\<close> with the status 404.
\<close>

theorem C4_empty_view:
  assumes "rows f = []"
    and "set [''Length'', ''Protocol'', ''Source IP'', ''Dest IP'', ''Timestamp'']
           \<subseteq> set (columns f)"
    and "gui_view g = Some f"
    and "filtered l ps st = Inr v" and "df_empty v"
  shows "update_stats_metrics f =
           Inr \<lparr>total_packets = 0, total_data_bytes = 0, total_data_mb = 0, avg_packet_size = 0,
                top_protocol = ''N/A'', top_source_ip = ''N/A'', top_dest_ip = ''N/A'',
                unique_protocols = 0, time_range = None\<rparr>
       \<and> stats_labels (update_dashboard g) = None
       \<and> fst (get_stats l ps st) = Json_error ''No data'' 404"
proof -
  have e: "df_empty f" using assms(1) by (simp add: df_empty_def)
  from assms(3) obtain a where a: "current_df g = Some a" "objs (mem g) a = f"
    by (auto simp: gui_view_def)
  have "stats_labels (update_dashboard g) = None"
    using a e by (simp add: update_dashboard_def clear_dashboard_def)
  moreover have "fst (get_stats l ps st) = Json_error ''No data'' 404"
    using assms(4,5) by (simp add: get_stats_filtered)
  ultimately show ?thesis
    using update_stats_metrics_empty [OF assms(1,2)] by simp
qed

text \<open>
  A protocol filter that no record matches: the API answers 404, not zero statistics.
\<close>

theorem C4_api_answers_no_data:
  "filtered reference_lib (no_params\<lparr>protocol := Some ''ICMP''\<rparr>) (api_with [rec1, rec2, rec3])
     = Inr (read_csv [])
   \<and> fst (get_stats reference_lib (no_params\<lparr>protocol := Some ''ICMP''\<rparr>)
            (api_with [rec1, rec2, rec3]))
     = Json_error ''No data'' 404"
  by code_simp

theorem C4_empty_view_witness:
  "update_stats_metrics (read_csv []) =
           Inr \<lparr>total_packets = 0, total_data_bytes = 0, total_data_mb = 0, avg_packet_size = 0,
                top_protocol = ''N/A'', top_source_ip = ''N/A'', top_dest_ip = ''N/A'',
                unique_protocols = 0, time_range = None\<rparr>
   \<and> stats_labels (update_dashboard
         (apply_filter reference_lib ((gui_with [rec1, rec2, rec3])\<lparr>protocol_filter_var := ''ICMP''\<rparr>)))
       = None
   \<and> fst (get_stats reference_lib (no_params\<lparr>protocol := Some ''ICMP''\<rparr>)
            (api_with [rec1, rec2, rec3]))
       = Json_error ''No data'' 404"
proof (rule C4_empty_view)
  show "rows (read_csv []) = []" by code_simp
  show "set [''Length'', ''Protocol'', ''Source IP'', ''Dest IP'', ''Timestamp'']
          \<subseteq> set (columns (read_csv []))"
    by code_simp
  show "gui_view (apply_filter reference_lib
           ((gui_with [rec1, rec2, rec3])\<lparr>protocol_filter_var := ''ICMP''\<rparr>)) = Some (read_csv [])"
    by code_simp
  show "filtered reference_lib (no_params\<lparr>protocol := Some ''ICMP''\<rparr>)
          (api_with [rec1, rec2, rec3]) = Inr (read_csv [])"
    by code_simp
  show "df_empty (read_csv [])" by code_simp
qed

section \<open>The baseline table\<close>

text \<open>
  C8. No filter, sort, statistics or frequency request changes the loaded table. In the
  dashboard, started and taken through any events, every further sequence of events
  other than a new load leaves \<^verbatim>\<open>self.df\<close> the same reference to the same columns and
  records in the same order, and the current view is another object. In the API, after
  \<^verbatim>\<open>load_data\<close> and any requests, every further sequence of requests leaves the global
  \<^verbatim>\<open>df\<close> and its content unchanged, and the frame \<^verbatim>\<open>get_filtered_df\<close> returns is never the
  global one. This holds whatever the sorting kernel and the regular expressions do.
\<close>

theorem C8_baseline_table_is_never_mutated:
  assumes "g = run l evs0 gui_start"
    and "\<forall>ev \<in> set evs. \<not> is_load ev"
    and "st = snd (serve l rqs0 (snd (api_load_data csv api_start)))"
  shows "df (run l evs g) = df g
       \<and> gui_table (run l evs g) = gui_table g
       \<and> (df g \<noteq> None \<longrightarrow> current_df (run l evs g) \<noteq> df g)
       \<and> global_df (snd (serve l rqs st)) = global_df st
       \<and> api_table (snd (serve l rqs st)) = api_table st
       \<and> (get_filtered_df l ps st = (Inr a, st1) \<longrightarrow>
            global_df st \<noteq> Some a \<and> global_df st1 = global_df st \<and> api_table st1 = api_table st)"
proof -
  have ok: "gui_ok g"
    unfolding assms(1) by (rule run_ok [OF gui_ok_start])
  have t: "df (run l evs g) = df g" "gui_table (run l evs g) = gui_table g"
    using run_keeps_table [OF ok assms(2), of l] by simp_all
  have "gui_ok (run l evs g)"
    by (rule run_ok [OF ok])
  then have v: "df g \<noteq> None \<longrightarrow> current_df (run l evs g) \<noteq> df g"
    using t(1) by (auto simp: gui_ok_def)
  have aok: "api_ok st"
    unfolding assms(3) using api_ok_serve [OF api_ok_load] by simp
  have s: "global_df (snd (serve l rqs st)) = global_df st"
    "api_table (snd (serve l rqs st)) = api_table st"
    using api_ok_serve [OF aok, of l rqs] by simp_all
  have f: "global_df st \<noteq> Some a \<and> global_df st1 = global_df st \<and> api_table st1 = api_table st"
    if r: "get_filtered_df l ps st = (Inr a, st1)"
  proof (cases "global_df st")
    case None
    then show ?thesis
      using get_filtered_df_keeps [OF _ r, of 0] by (simp add: api_table_def)
  next
    case (Some d)
    then have d: "Suc d \<le> fresh (api_mem st)" using aok by (simp add: api_ok_def)
    show ?thesis
      using get_filtered_df_keeps [OF d r] Some by (auto simp: api_table_def keeps_below_def)
  qed
  show ?thesis using t v s f by blast
qed

theorem C8_baseline_table_is_never_mutated_witness:
  "gui_table (run reference_lib
       [Type_source_ip ''a'', Apply_filter, Sort_treeview ''Length'' True, Clear_filters]
       (gui_with [rec1, rec2, rec3])) = Some (read_csv [rec1, rec2, rec3])
   \<and> api_table (snd (serve reference_lib
       [(Api_data, no_params\<lparr>sort_by := Some ''Length'', ascending := Some ''False''\<rparr>),
        (Api_stats, no_params\<lparr>protocol := Some ''TCP''\<rparr>),
        (Api_plot_top_ips, no_params)]
       (api_with [rec1, rec2, rec3]))) = Some (read_csv [rec1, rec2, rec3])"
proof -
  have g: "gui_with [rec1, rec2, rec3]
             = run reference_lib [Load_data (File [rec1, rec2, rec3])] gui_start"
    by (simp add: gui_with_def)
  have e: "\<forall>ev \<in> set [Type_source_ip ''a'', Apply_filter, Sort_treeview ''Length'' True,
                        Clear_filters]. \<not> is_load ev"
    by simp
  have s: "api_with [rec1, rec2, rec3]
             = snd (serve reference_lib [] (snd (api_load_data (Some [rec1, rec2, rec3]) api_start)))"
    by (simp add: api_with_def)
  have gt: "gui_table (gui_with [rec1, rec2, rec3]) = Some (read_csv [rec1, rec2, rec3])"
    by code_simp
  have at: "api_table (api_with [rec1, rec2, rec3]) = Some (read_csv [rec1, rec2, rec3])"
    by code_simp
  have "gui_table (run reference_lib
            [Type_source_ip ''a'', Apply_filter, Sort_treeview ''Length'' True, Clear_filters]
            (gui_with [rec1, rec2, rec3])) = gui_table (gui_with [rec1, rec2, rec3])
        \<and> api_table (snd (serve reference_lib
            [(Api_data, no_params\<lparr>sort_by := Some ''Length'', ascending := Some ''False''\<rparr>),
             (Api_stats, no_params\<lparr>protocol := Some ''TCP''\<rparr>),
             (Api_plot_top_ips, no_params)]
            (api_with [rec1, rec2, rec3]))) = api_table (api_with [rec1, rec2, rec3])"
    using C8_baseline_table_is_never_mutated [OF g e s] by blast
  then show ?thesis
    by (simp only: gt at)
qed


end
